theory Spec2Isabelle
  imports Complex_Main "HOL-Library.Word"
begin

section \<open>Shared-memory numpy buffers (awrams.utils.messaging.buffers)\<close>

text \<open>
  A shallow embedding of \<^verbatim>\<open>buffers.py\<close>. Python exceptions are values of \<open>error\<close>;
  a call that may also wait forever has an \<open>outcome\<close>. The exceptions are the ones Python
  raises: \<open>KeyError\<close> from a dictionary lookup (the specification's UnsupportedDtype),
  \<open>ValueError\<close> from \<^verbatim>\<open>reshape\<close> (ShapeMismatch) and from a negative array length,
  \<open>OverflowError\<close> from an array type too large for ctypes,
  \<open>Empty\<close> from \<^verbatim>\<open>Queue.get\<close> (Timeout), \<open>IndexError\<close> from indexing out of range and
  \<open>AttributeError\<close> from reading \<^verbatim>\<open>buffers_np\<close> before it was built.
\<close>

datatype error = KeyError | ValueError | OverflowError | IndexError | AttributeError | Empty

datatype 'a outcome = Returns 'a | Raises error | Blocks

subsection \<open>Dictionaries\<close>

text \<open>
  A Python \<^verbatim>\<open>dict\<close> is an association list in insertion order: assignment to a present
  key replaces the value in place, assignment to a new key appends.
\<close>

fun dict_setitem :: "('k \<times> 'v) list \<Rightarrow> 'k \<Rightarrow> 'v \<Rightarrow> ('k \<times> 'v) list" where
  "dict_setitem [] k v = [(k, v)]"
| "dict_setitem ((k', v') # d) k v =
     (if k' = k then (k, v) # d else (k', v') # dict_setitem d k v)"

definition dict_getitem :: "('k \<times> 'v) list \<Rightarrow> 'k \<Rightarrow> error + 'v" where
  "dict_getitem d k = (case map_of d k of None \<Rightarrow> Inl KeyError | Some v \<Rightarrow> Inr v)"

text \<open>\<^verbatim>\<open>dict(pairs)\<close>: the pairs are assigned from left to right.\<close>

definition dict_of :: "('k \<times> 'v) list \<Rightarrow> ('k \<times> 'v) list" where
  "dict_of pairs = fold (\<lambda>(k, v) d. dict_setitem d k v) pairs []"

subsection \<open>The dtype tables\<close>

text \<open>
  \<^verbatim>\<open>
  _ctypes_to_numpy = {
      ctypes.c_float  : np.dtype('float32'),
      ctypes.c_double : np.dtype('float64'),
                  'd' : np.dtype('float64')}

  _numpy_to_ctypes = dict(list(zip(list(_ctypes_to_numpy.values()),
                              list(_ctypes_to_numpy.keys()))))
  \<close>
  The numpy element types, and the objects that occur as a ctypes type or typecode: the
  keys of \<^verbatim>\<open>_ctypes_to_numpy\<close> are \<^verbatim>\<open>ctypes.c_float\<close>, \<^verbatim>\<open>ctypes.c_double\<close> and the
  string \<^verbatim>\<open>'d'\<close>; \<^verbatim>\<open>'f'\<close> is the \<^verbatim>\<open>_type_\<close> of a \<^verbatim>\<open>c_float\<close> instance. In the
  reversed table the later pair wins, so \<open>float64\<close> is mapped to \<^verbatim>\<open>'d'\<close>.
\<close>

datatype np_dtype =
  bool8 | int8 | int16 | int32 | int64 | uint8 | uint16 | uint32 | uint64
  | float16 | float32 | float64 | complex64 | complex128

datatype ctypes_key = c_float | c_double | typecode_f | typecode_d

definition ctypes_to_numpy :: "(ctypes_key \<times> np_dtype) list" where
  "ctypes_to_numpy = [(c_float, float32), (c_double, float64), (typecode_d, float64)]"

definition numpy_to_ctypes :: "(np_dtype \<times> ctypes_key) list" where
  "numpy_to_ctypes = dict_of (zip (map snd ctypes_to_numpy) (map fst ctypes_to_numpy))"

subsection \<open>Shared storage: \<^verbatim>\<open>multiprocessing.Array\<close> and \<^verbatim>\<open>multiprocessing.Value\<close>\<close>

text \<open>
  Shared storage is a list of blocks; the address of a block is its position. A shared
  ctypes object is a handle on one block: its \<^verbatim>\<open>_type_\<close> attribute (\<open>type_attr\<close>), the block and the
  number of elements. \<^verbatim>\<open>_type_\<close> of an array is the element's ctypes type, \<^verbatim>\<open>_type_\<close> of
  a single value is the typecode of its type. With \<^verbatim>\<open>lock=True\<close> the object is wrapped
  and has no \<^verbatim>\<open>_type_\<close>; \<^verbatim>\<open>get_obj\<close> unwraps it. Whether the operating system can
  provide the storage is not modelled: an allocation that fails for want of memory
  returns a block here, so the theorems below say what an allocation of unknown size
  has made when it returns, not that it returns.
\<close>

type_synonym 'a heap = "'a list list"

record shm_object =
  type_attr :: ctypes_key
  addr :: nat
  nelem :: nat

datatype mp_array = Raw shm_object | Synchronized shm_object

fun get_obj :: "mp_array \<Rightarrow> mp_array" where
  "get_obj (Synchronized obj) = Raw obj"
| "get_obj (Raw obj) = Raw obj"

fun ctypes_obj :: "mp_array \<Rightarrow> shm_object" where
  "ctypes_obj (Raw obj) = obj"
| "ctypes_obj (Synchronized obj) = obj"

fun hasattr_type :: "mp_array \<Rightarrow> bool" where
  "hasattr_type (Raw obj) = True"
| "hasattr_type (Synchronized obj) = False"

fun typecode_to_type :: "ctypes_key \<Rightarrow> ctypes_key" where
  "typecode_to_type typecode_f = c_float"
| "typecode_to_type typecode_d = c_double"
| "typecode_to_type t = t"

fun typecode_of :: "ctypes_key \<Rightarrow> ctypes_key" where
  "typecode_of c_float = typecode_f"
| "typecode_of c_double = typecode_d"
| "typecode_of t = t"

definition wrap :: "bool \<Rightarrow> shm_object \<Rightarrow> mp_array" where
  "wrap lock obj = (if lock then Synchronized obj else Raw obj)"

text \<open>
  \<^verbatim>\<open>mp.Array(typecode_or_type, size, lock)\<close> with an integer size first builds the
  ctypes array type \<^verbatim>\<open>type_ * size\<close>: ctypes refuses a negative length with
  \<^verbatim>\<open>ValueError\<close>, and a length whose byte size does not fit a signed 64-bit size
  (\<open>2^60\<close> doubles, \<open>2^61\<close> floats) with \<^verbatim>\<open>OverflowError\<close>, before anything is
  allocated. Otherwise the result is a zeroed block of that many elements.
\<close>

fun sizeof :: "ctypes_key \<Rightarrow> int" where
  "sizeof c_float = 4"
| "sizeof c_double = 8"
| "sizeof typecode_f = 4"
| "sizeof typecode_d = 8"

definition mp_Array :: "ctypes_key \<Rightarrow> int \<Rightarrow> bool \<Rightarrow> 'a::zero heap \<Rightarrow> error + (mp_array \<times> 'a heap)" where
  "mp_Array typecode_or_type size_or_initializer lock heap =
     (if size_or_initializer < 0 then Inl ValueError
      else if 2 ^ 63 \<le> sizeof (typecode_to_type typecode_or_type) * size_or_initializer
      then Inl OverflowError
      else Inr (wrap lock \<lparr>type_attr = typecode_to_type typecode_or_type, addr = length heap,
                           nelem = nat size_or_initializer\<rparr>,
                heap @ [replicate (nat size_or_initializer) 0]))"

definition mp_Value :: "ctypes_key \<Rightarrow> bool \<Rightarrow> 'a::zero heap \<Rightarrow> error + (mp_array \<times> 'a heap)" where
  "mp_Value typecode_or_type lock heap =
     Inr (wrap lock \<lparr>type_attr = typecode_of (typecode_to_type typecode_or_type), addr = length heap,
                      nelem = 1\<rparr>,
          heap @ [[0]])"

subsection \<open>Shapes and \<^verbatim>\<open>np.prod\<close>\<close>

text \<open>
  \<^verbatim>\<open>
  def init_shm_ndarray(shape,dtype=np.float64):
      shm = mp.Array(_numpy_to_ctypes[np.dtype(dtype)],int(np.prod(shape)),lock=False)
      return shm

  def init_shm_value(dtype=np.float64):
      shm = mp.Value(_numpy_to_ctypes[np.dtype(dtype)],lock=False)
      return shm
  \<close>
  A shape is a tuple of integers. \<^verbatim>\<open>np.prod\<close> turns it into an array of 64-bit integers
  and multiplies there: the arithmetic is modular and no error is raised on overflow.
  So a dimension is a 64-bit word, read as a signed number by \<open>sint\<close>; the product of
  the empty shape is 1. The table lookup is evaluated before the product, so an
  unregistered type raises \<^verbatim>\<open>KeyError\<close> whatever the shape.
\<close>

type_synonym npy_intp = "64 word"

definition np_prod :: "npy_intp list \<Rightarrow> npy_intp" where
  "np_prod shape = prod_list shape"

definition init_shm_ndarray :: "npy_intp list \<Rightarrow> np_dtype \<Rightarrow> 'a::zero heap \<Rightarrow> error + (mp_array \<times> 'a heap)" where
  "init_shm_ndarray shape dtype heap =
     (case dict_getitem numpy_to_ctypes dtype of
        Inl e \<Rightarrow> Inl e
      | Inr t \<Rightarrow> mp_Array t (sint (np_prod shape)) False heap)"

definition init_shm_value :: "np_dtype \<Rightarrow> 'a::zero heap \<Rightarrow> error + (mp_array \<times> 'a heap)" where
  "init_shm_value dtype heap =
     (case dict_getitem numpy_to_ctypes dtype of
        Inl e \<Rightarrow> Inl e
      | Inr t \<Rightarrow> mp_Value t False heap)"

subsection \<open>Array views\<close>

text \<open>
  An \<^verbatim>\<open>ndarray\<close> over shared storage is a descriptor: the block it points into, the
  element type, the position of its first element and, per axis, the extent and the
  step between neighbours (in elements). Two descriptors with the same \<open>nd_base\<close> alias
  the same storage; nothing is copied by making one.
\<close>

record ndarray =
  nd_base :: nat
  nd_dtype :: np_dtype
  nd_offset :: int
  nd_shape :: "nat list"
  nd_strides :: "int list"

datatype order = C_order | F_order

text \<open>
  The strides of a contiguous layout; numpy counts an extent of 0 as 1 when it
  accumulates them, so the shape \<open>(2, 0, 3)\<close> has the row-major strides \<open>(3, 3, 1)\<close>.
\<close>

fun c_strides :: "nat list \<Rightarrow> int list" where
  "c_strides [] = []"
| "c_strides (d # ds) = int (prod_list (map (max 1) ds)) # c_strides ds"

fun f_strides :: "nat \<Rightarrow> nat list \<Rightarrow> int list" where
  "f_strides acc [] = []"
| "f_strides acc (d # ds) = int acc # f_strides (acc * max 1 d) ds"

text \<open>
  \<^verbatim>\<open>np.frombuffer(obj, dtype)\<close>: the flat array over the whole block. The element type
  comes from \<^verbatim>\<open>_ctypes_to_numpy\<close>, so its item size is the one of the block and the
  array has as many elements as the block.
\<close>

definition np_frombuffer :: "shm_object \<Rightarrow> np_dtype \<Rightarrow> ndarray" where
  "np_frombuffer obj dtype =
     \<lparr>nd_base = addr obj, nd_dtype = dtype, nd_offset = 0, nd_shape = [nelem obj], nd_strides = [1]\<rparr>"

text \<open>
  \<^verbatim>\<open>
  def shm_as_ndarray(mp_array, shape=None,order='C'):
      if not hasattr(mp_array, '_type_'):
          mp_array = mp_array.get_obj()
      dtype = _ctypes_to_numpy[mp_array._type_]
      result = np.frombuffer(mp_array, dtype)
      if shape is not None:
          result = result.reshape(shape,order=order)
      return np.asarray(result)
  \<close>
  \<^verbatim>\<open>reshape\<close> of a flat contiguous array (the only array the source reshapes): a
  negative dimension is the unknown one and is inferred from the size; more than one is
  refused; otherwise the product of the dimensions has to be the size. The result is a
  view in row-major or column-major layout. numpy's limits on the number of dimensions
  and on sizes beyond the address space are not modelled.
\<close>

definition fix_unknown_dimension :: "npy_intp list \<Rightarrow> nat \<Rightarrow> error + nat list" where
  "fix_unknown_dimension newshape n =
     (let dims = map sint newshape;
          s_known = prod_list (filter (\<lambda>d. 0 \<le> d) dims);
          unknown = length (filter (\<lambda>d. d < 0) dims)
      in if 1 < unknown then Inl ValueError
         else if unknown = 1 then
           (if s_known = 0 \<or> int n mod s_known \<noteq> 0 then Inl ValueError
            else Inr (map (\<lambda>d. if d < 0 then nat (int n div s_known) else nat d) dims))
         else if s_known \<noteq> int n then Inl ValueError
         else Inr (map nat dims))"

definition reshape :: "ndarray \<Rightarrow> npy_intp list \<Rightarrow> order \<Rightarrow> error + ndarray" where
  "reshape a newshape ord =
     (case fix_unknown_dimension newshape (prod_list (nd_shape a)) of
        Inl e \<Rightarrow> Inl e
      | Inr dims \<Rightarrow>
          Inr (a\<lparr>nd_shape := dims,
                 nd_strides := (case ord of C_order \<Rightarrow> c_strides dims | F_order \<Rightarrow> f_strides 1 dims)\<rparr>))"

definition shm_as_ndarray :: "mp_array \<Rightarrow> npy_intp list option \<Rightarrow> order \<Rightarrow> error + ndarray" where
  "shm_as_ndarray mp_array shape_arg ord =
     (let obj = ctypes_obj (if \<not> hasattr_type mp_array then get_obj mp_array else mp_array)
      in case dict_getitem ctypes_to_numpy (type_attr obj) of
           Inl e \<Rightarrow> Inl e
         | Inr dtype \<Rightarrow>
             (let result = np_frombuffer obj dtype
              in case shape_arg of
                   None \<Rightarrow> Inr result
                 | Some s \<Rightarrow> reshape result s ord))"

subsection \<open>Indexing\<close>

text \<open>
  Python's \<^verbatim>\<open>list[i]\<close>: a negative index counts from the end, an index out of range
  raises \<^verbatim>\<open>IndexError\<close>.
\<close>

definition list_getitem :: "'a list \<Rightarrow> int \<Rightarrow> error + 'a" where
  "list_getitem xs i =
     (if 0 \<le> i \<and> i < int (length xs) then Inr (xs ! nat i)
      else if i < 0 \<and> - int (length xs) \<le> i then Inr (xs ! nat (int (length xs) + i))
      else Inl IndexError)"

text \<open>
  The index objects of numpy's basic indexing: an integer, a slice
  \<^verbatim>\<open>start:stop:step\<close>, or a tuple of those. \<open>py_not\<close> is Python's \<^verbatim>\<open>not indices\<close>:
  \<^verbatim>\<open>None\<close>, the integer 0 and the empty tuple are false, everything else is true.
\<close>

datatype index = Index int | Slice "int option" "int option" "int option"

datatype indices = One index | Tuple "index list"

fun py_not :: "indices option \<Rightarrow> bool" where
  "py_not None = True"
| "py_not (Some (One (Index i))) = (i = 0)"
| "py_not (Some (One (Slice start stop step))) = False"
| "py_not (Some (Tuple ixs)) = (ixs = [])"

text \<open>
  \<^verbatim>\<open>slice.indices\<close>: the first position, the bound and the step of a slice on an axis
  of extent \<open>len\<close>, and the number of positions it selects.
\<close>

definition slice_indices :: "int option \<Rightarrow> int option \<Rightarrow> int option \<Rightarrow> int \<Rightarrow> error + (int \<times> int \<times> int)" where
  "slice_indices start stop step len =
     (let st = (case step of None \<Rightarrow> 1 | Some s \<Rightarrow> s)
      in if st = 0 then Inl ValueError
         else
           (let lower = (if st < 0 then - 1 else 0);
                upper = (if st < 0 then len - 1 else len);
                clamp = (\<lambda>x. if x < 0 then max (x + len) lower else min x upper);
                b = (case start of None \<Rightarrow> (if st < 0 then upper else lower) | Some x \<Rightarrow> clamp x);
                e = (case stop of None \<Rightarrow> (if st < 0 then lower else upper) | Some x \<Rightarrow> clamp x)
            in Inr (b, e, st)))"

definition slice_length :: "int \<Rightarrow> int \<Rightarrow> int \<Rightarrow> nat" where
  "slice_length b e st =
     (if 0 < st then (if b < e then nat ((e - b - 1) div st + 1) else 0)
      else (if e < b then nat ((b - e - 1) div (- st) + 1) else 0))"

text \<open>
  Basic indexing consumes the axes from the left: an integer selects one position and
  drops the axis, a slice keeps the axis with a new extent and step (for a slice that
  selects nothing numpy takes the start 0 and the step 1). More indices than axes, or
  an integer out of range, raise \<^verbatim>\<open>IndexError\<close>. The result is a descriptor over the
  same block.
\<close>

fun index_axes :: "index list \<Rightarrow> (nat \<times> int) list \<Rightarrow> int \<Rightarrow> error + (int \<times> (nat \<times> int) list)" where
  "index_axes [] axes off = Inr (off, axes)"
| "index_axes (ix # ixs) [] off = Inl IndexError"
| "index_axes (Index i # ixs) ((d, s) # axes) off =
     (if - int d \<le> i \<and> i < int d
      then index_axes ixs axes (off + (if i < 0 then i + int d else i) * s)
      else Inl IndexError)"
| "index_axes (Slice start stop step # ixs) ((d, s) # axes) off =
     (case slice_indices start stop step (int d) of
        Inl e \<Rightarrow> Inl e
      | Inr (b, e, st) \<Rightarrow>
          (let n = slice_length b e st;
               b' = (if n = 0 then 0 else b);
               st' = (if n = 0 then 1 else st)
           in case index_axes ixs axes (off + b' * s) of
                Inl err \<Rightarrow> Inl err
              | Inr (off', axes') \<Rightarrow> Inr (off', (n, s * st') # axes')))"

definition index_view :: "ndarray \<Rightarrow> index list \<Rightarrow> error + ndarray" where
  "index_view a ixs =
     (case index_axes ixs (zip (nd_shape a) (nd_strides a)) (nd_offset a) of
        Inl e \<Rightarrow> Inl e
      | Inr (off, axes) \<Rightarrow>
          Inr (a\<lparr>nd_offset := off, nd_shape := map fst axes, nd_strides := map snd axes\<rparr>))"

text \<open>
  \<^verbatim>\<open>a[indices]\<close>: when every axis was selected by an integer, numpy hands out the element
  itself (a scalar, read from the storage at the time of the call); otherwise the
  sub-view.
\<close>

datatype 'a np_item = Scalar 'a | Array ndarray

definition np_getitem :: "'a heap \<Rightarrow> ndarray \<Rightarrow> indices \<Rightarrow> error + 'a np_item" where
  "np_getitem heap a ind =
     (case index_view a (case ind of One ix \<Rightarrow> [ix] | Tuple ixs \<Rightarrow> ixs) of
        Inl e \<Rightarrow> Inl e
      | Inr v \<Rightarrow>
          (if nd_shape v = [] then Inr (Scalar (heap ! nd_base v ! nat (nd_offset v)))
           else Inr (Array v)))"

text \<open>The elements of a one-dimensional view, read from the storage.\<close>

definition tolist :: "'a heap \<Rightarrow> ndarray \<Rightarrow> 'a list" where
  "tolist heap a =
     map (\<lambda>i. heap ! nd_base a ! nat (nd_offset a + int i * hd (nd_strides a)))
       [0 ..< hd (nd_shape a)]"

subsection \<open>The free list: \<^verbatim>\<open>multiprocessing.Queue\<close>\<close>

text \<open>
  The queue is the list of the ids it holds, oldest first. \<^verbatim>\<open>put\<close> appends (the queue
  is unbounded). \<^verbatim>\<open>get(timeout)\<close> removes and returns the oldest id; on a queue that
  stays empty for the whole wait it raises \<^verbatim>\<open>Empty\<close> when a timeout was given and never
  returns when none was. The queue given to \<open>Queue_get\<close> is what the call finds during its wait.
\<close>

definition Queue_put :: "int list \<Rightarrow> int \<Rightarrow> int list" where
  "Queue_put q x = q @ [x]"

fun Queue_get :: "int list \<Rightarrow> real option \<Rightarrow> int outcome \<times> int list" where
  "Queue_get [] None = (Blocks, [])"
| "Queue_get [] (Some timeout) = (Raises Empty, [])"
| "Queue_get (x # q) timeout = (Returns x, q)"

subsection \<open>\<^verbatim>\<open>BufferManager\<close>\<close>

text \<open>
  \<^verbatim>\<open>
  class BufferManager:
      def __init__(self,buffers,queue,shape=None,build=True):
          self.queue = queue
          self.buffers_shm = buffers
          self.buf_shape = shape
          if build:
              self.rebuild_buffers()

      def rebuild_buffers(self):
          self.buffers_np = []
          for b in self.buffers_shm:
              self.buffers_np.append(shm_as_ndarray(b,self.buf_shape))

      def get_buffer(self,timeout=None):
          buffer_id = self.queue.get(timeout=timeout)
          return buffer_id, self.map_buffer(buffer_id)

      def reclaim(self,buffer_id):
          self.queue.put(buffer_id)

      def map_buffer(self,buffer_id,indices=None):
          if not indices:
              return self.buffers_np[buffer_id]
          else:
              return self.buffers_np[buffer_id][indices]
  \<close>
  Both managers hold the queue and the shared buffers. \<^verbatim>\<open>buffers_np\<close> is \<open>None\<close> as long
  as the attribute was never assigned (\<^verbatim>\<open>build=False\<close> and no \<^verbatim>\<open>rebuild_buffers\<close> yet).
  A method returns its result together with the manager as the call leaves it; when
  \<^verbatim>\<open>map_buffer\<close> raises inside \<^verbatim>\<open>get_buffer\<close>, the id has already left the queue.
\<close>

record 'b manager =
  queue :: "int list"
  buffers_shm :: "'b list"

record BufferManager = "mp_array manager" +
  buf_shape :: "npy_intp list option"
  buffers_np :: "ndarray list option"

fun rebuild_loop :: "mp_array list \<Rightarrow> npy_intp list option \<Rightarrow> ndarray list \<Rightarrow> error option \<times> ndarray list" where
  "rebuild_loop [] shape views = (None, views)"
| "rebuild_loop (b # bs) shape views =
     (case shm_as_ndarray b shape C_order of
        Inl e \<Rightarrow> (Some e, views)
      | Inr a \<Rightarrow> rebuild_loop bs shape (views @ [a]))"

definition BufferManager_rebuild_buffers :: "BufferManager \<Rightarrow> (error + unit) \<times> BufferManager" where
  "BufferManager_rebuild_buffers self =
     (case rebuild_loop (buffers_shm self) (buf_shape self) [] of
        (None, np) \<Rightarrow> (Inr (), self\<lparr>buffers_np := Some np\<rparr>)
      | (Some e, np) \<Rightarrow> (Inl e, self\<lparr>buffers_np := Some np\<rparr>))"

definition BufferManager_init :: "mp_array list \<Rightarrow> int list \<Rightarrow> npy_intp list option \<Rightarrow> bool \<Rightarrow> error + BufferManager" where
  "BufferManager_init buffers q shape build =
     (let self = \<lparr>queue = q, buffers_shm = buffers, buf_shape = shape, buffers_np = None\<rparr>
      in if build then
           (case BufferManager_rebuild_buffers self of
              (Inl e, self') \<Rightarrow> Inl e
            | (Inr u, self') \<Rightarrow> Inr self')
         else Inr self)"

definition BufferManager_map_buffer :: "'a heap \<Rightarrow> BufferManager \<Rightarrow> int \<Rightarrow> indices option \<Rightarrow> error + 'a np_item" where
  "BufferManager_map_buffer heap self buffer_id ind =
     (if py_not ind then
        (case buffers_np self of
           None \<Rightarrow> Inl AttributeError
         | Some np \<Rightarrow>
             (case list_getitem np buffer_id of Inl e \<Rightarrow> Inl e | Inr a \<Rightarrow> Inr (Array a)))
      else
        (case buffers_np self of
           None \<Rightarrow> Inl AttributeError
         | Some np \<Rightarrow>
             (case list_getitem np buffer_id of
                Inl e \<Rightarrow> Inl e
              | Inr a \<Rightarrow> (case ind of None \<Rightarrow> Inr (Array a) | Some i \<Rightarrow> np_getitem heap a i))))"

definition BufferManager_get_buffer :: "'a heap \<Rightarrow> BufferManager \<Rightarrow> real option \<Rightarrow> (int \<times> 'a np_item) outcome \<times> BufferManager" where
  "BufferManager_get_buffer heap self timeout =
     (case Queue_get (queue self) timeout of
        (Blocks, q) \<Rightarrow> (Blocks, self)
      | (Raises e, q) \<Rightarrow> (Raises e, self\<lparr>queue := q\<rparr>)
      | (Returns buffer_id, q) \<Rightarrow>
          (let self' = self\<lparr>queue := q\<rparr>
           in case BufferManager_map_buffer heap self' buffer_id None of
                Inl e \<Rightarrow> (Raises e, self')
              | Inr a \<Rightarrow> (Returns (buffer_id, a), self')))"

definition BufferManager_reclaim :: "BufferManager \<Rightarrow> int \<Rightarrow> BufferManager" where
  "BufferManager_reclaim self buffer_id = self\<lparr>queue := Queue_put (queue self) buffer_id\<rparr>"

subsection \<open>\<^verbatim>\<open>shm_to_nd_dict\<close> and \<^verbatim>\<open>BufferedDictManager\<close>\<close>

text \<open>
  The \<^verbatim>\<open>shape\<close> argument of \<^verbatim>\<open>shm_to_nd_dict\<close> is \<^verbatim>\<open>None\<close>, one shape for every
  field, or a dictionary of shapes (the case \<^verbatim>\<open>hasattr(shape,'items')\<close>).
\<close>

datatype shape_arg = NoShape | CommonShape "npy_intp list" | ShapeDict "(string \<times> npy_intp list option) list"

fun shm_to_nd_dict_loop :: "(string \<times> mp_array) list \<Rightarrow> shape_arg \<Rightarrow> order \<Rightarrow> (string \<times> ndarray) list \<Rightarrow> error + (string \<times> ndarray) list" where
  "shm_to_nd_dict_loop [] shape ord nd_dict = Inr nd_dict"
| "shm_to_nd_dict_loop ((k, v) # items) shape ord nd_dict =
     (case (case shape of
              ShapeDict d \<Rightarrow> dict_getitem d k
            | CommonShape s \<Rightarrow> Inr (Some s)
            | NoShape \<Rightarrow> Inr None) of
        Inl e \<Rightarrow> Inl e
      | Inr to_shape \<Rightarrow>
          (case shm_as_ndarray v to_shape ord of
             Inl e \<Rightarrow> Inl e
           | Inr a \<Rightarrow> shm_to_nd_dict_loop items shape ord (dict_setitem nd_dict k a)))"

definition shm_to_nd_dict :: "(string \<times> mp_array) list \<Rightarrow> shape_arg \<Rightarrow> order \<Rightarrow> error + (string \<times> ndarray) list" where
  "shm_to_nd_dict buffers shape ord = shm_to_nd_dict_loop buffers shape ord []"

record BufferedDictManager = "(string \<times> mp_array) list manager" +
  buffers_nd :: "(string \<times> ndarray) list list option"

fun dict_rebuild_loop :: "(string \<times> mp_array) list list \<Rightarrow> (string \<times> ndarray) list list \<Rightarrow> error option \<times> (string \<times> ndarray) list list" where
  "dict_rebuild_loop [] views = (None, views)"
| "dict_rebuild_loop (b # bs) views =
     (case shm_to_nd_dict b NoShape C_order of
        Inl e \<Rightarrow> (Some e, views)
      | Inr d \<Rightarrow> dict_rebuild_loop bs (views @ [d]))"

definition BufferedDictManager_rebuild_buffers :: "BufferedDictManager \<Rightarrow> (error + unit) \<times> BufferedDictManager" where
  "BufferedDictManager_rebuild_buffers self =
     (case dict_rebuild_loop (buffers_shm self) [] of
        (None, nd) \<Rightarrow> (Inr (), self\<lparr>buffers_nd := Some nd\<rparr>)
      | (Some e, nd) \<Rightarrow> (Inl e, self\<lparr>buffers_nd := Some nd\<rparr>))"

definition BufferedDictManager_init :: "(string \<times> mp_array) list list \<Rightarrow> int list \<Rightarrow> bool \<Rightarrow> error + BufferedDictManager" where
  "BufferedDictManager_init buffers q build =
     (let self = \<lparr>queue = q, buffers_shm = buffers, buffers_nd = None\<rparr>
      in if build then
           (case BufferedDictManager_rebuild_buffers self of
              (Inl e, self') \<Rightarrow> Inl e
            | (Inr u, self') \<Rightarrow> Inr self')
         else Inr self)"

text \<open>
  \<^verbatim>\<open>
      def map_buffer(self,buffer_id,buffer_len=None):
          if buffer_len is None:
              buffers = self.buffers_nd[buffer_id]
          else:
              buffers = {}
              for k,v in list(self.buffers_nd[buffer_id].items()):
                  buffers[k] = v[0:buffer_len]
          return buffers
  \<close>
  \<^verbatim>\<open>v[0:buffer_len]\<close> is a slice of the leading axis; a slice keeps its axis, so the
  result is always a view. \<^verbatim>\<open>rebuild_buffers\<close>, \<^verbatim>\<open>get_buffer\<close> and \<^verbatim>\<open>reclaim\<close> are
  as in \<^verbatim>\<open>BufferManager\<close>, with \<^verbatim>\<open>shm_to_nd_dict(b)\<close> for every record.
\<close>

fun truncate_loop :: "(string \<times> ndarray) list \<Rightarrow> int \<Rightarrow> (string \<times> ndarray) list \<Rightarrow> error + (string \<times> ndarray) list" where
  "truncate_loop [] buffer_len buffers = Inr buffers"
| "truncate_loop ((k, v) # items) buffer_len buffers =
     (case index_view v [Slice (Some 0) (Some buffer_len) None] of
        Inl e \<Rightarrow> Inl e
      | Inr a \<Rightarrow> truncate_loop items buffer_len (dict_setitem buffers k a))"

definition BufferedDictManager_map_buffer :: "BufferedDictManager \<Rightarrow> int \<Rightarrow> int option \<Rightarrow> error + (string \<times> ndarray) list" where
  "BufferedDictManager_map_buffer self buffer_id buffer_len =
     (case buffer_len of
        None \<Rightarrow>
          (case buffers_nd self of
             None \<Rightarrow> Inl AttributeError
           | Some nd \<Rightarrow> list_getitem nd buffer_id)
      | Some len \<Rightarrow>
          (case buffers_nd self of
             None \<Rightarrow> Inl AttributeError
           | Some nd \<Rightarrow>
               (case list_getitem nd buffer_id of
                  Inl e \<Rightarrow> Inl e
                | Inr d \<Rightarrow> truncate_loop d len [])))"

definition BufferedDictManager_get_buffer :: "BufferedDictManager \<Rightarrow> int option \<Rightarrow> real option \<Rightarrow> (int \<times> (string \<times> ndarray) list) outcome \<times> BufferedDictManager" where
  "BufferedDictManager_get_buffer self buffer_len timeout =
     (case Queue_get (queue self) timeout of
        (Blocks, q) \<Rightarrow> (Blocks, self)
      | (Raises e, q) \<Rightarrow> (Raises e, self\<lparr>queue := q\<rparr>)
      | (Returns buffer_id, q) \<Rightarrow>
          (let self' = self\<lparr>queue := q\<rparr>
           in case BufferedDictManager_map_buffer self' buffer_id buffer_len of
                Inl e \<Rightarrow> (Raises e, self')
              | Inr buffers \<Rightarrow> (Returns (buffer_id, buffers), self')))"

definition BufferedDictManager_reclaim :: "BufferedDictManager \<Rightarrow> int \<Rightarrow> BufferedDictManager" where
  "BufferedDictManager_reclaim self buffer_id = self\<lparr>queue := Queue_put (queue self) buffer_id\<rparr>"

subsection \<open>Factories\<close>

text \<open>
  \<^verbatim>\<open>
  def create_buffers(buf_count,buf_shape,dtype=np.float64):
      buffers = []
      q = mp.Queue()
      for i in range(buf_count):
          buffers.append(init_shm_ndarray(buf_shape,dtype))
          q.put(i)
      return buffers,q
  \<close>
  \<^verbatim>\<open>range(n)\<close> is empty for a negative \<open>n\<close>. The factories thread the shared storage
  through their allocations.
\<close>

definition py_range :: "int \<Rightarrow> int list" where
  "py_range n = map int [0 ..< nat n]"

fun create_buffers_loop :: "int list \<Rightarrow> npy_intp list \<Rightarrow> np_dtype \<Rightarrow> mp_array list \<times> int list \<times> 'a::zero heap \<Rightarrow> error + (mp_array list \<times> int list \<times> 'a heap)" where
  "create_buffers_loop [] buf_shape' dtype state = Inr state"
| "create_buffers_loop (i # is) buf_shape' dtype (buffers, q, heap) =
     (case init_shm_ndarray buf_shape' dtype heap of
        Inl e \<Rightarrow> Inl e
      | Inr (b, heap') \<Rightarrow> create_buffers_loop is buf_shape' dtype (buffers @ [b], Queue_put q i, heap'))"

definition create_buffers :: "int \<Rightarrow> npy_intp list \<Rightarrow> np_dtype \<Rightarrow> 'a::zero heap \<Rightarrow> error + (mp_array list \<times> int list \<times> 'a heap)" where
  "create_buffers buf_count buf_shape' dtype heap =
     create_buffers_loop (py_range buf_count) buf_shape' dtype ([], [], heap)"

definition create_managed_buffers :: "int \<Rightarrow> npy_intp list \<Rightarrow> np_dtype \<Rightarrow> bool \<Rightarrow> 'a::zero heap \<Rightarrow> error + (BufferManager \<times> 'a heap)" where
  "create_managed_buffers count shape dtype build heap =
     (case create_buffers count shape dtype heap of
        Inl e \<Rightarrow> Inl e
      | Inr (buffers, q, heap') \<Rightarrow>
          (case BufferManager_init buffers q (Some shape) build of
             Inl e \<Rightarrow> Inl e
           | Inr m \<Rightarrow> Inr (m, heap')))"

text \<open>
  \<^verbatim>\<open>create_dict_buffers\<close> passes the integer \<^verbatim>\<open>buf_len\<close> where a shape is expected;
  \<^verbatim>\<open>np.prod\<close> of an integer is the integer, as for the shape \<^verbatim>\<open>(buf_len,)\<close>.
\<close>

fun recordables_loop :: "string list \<Rightarrow> npy_intp \<Rightarrow> np_dtype \<Rightarrow> (string \<times> mp_array) list \<times> 'a::zero heap \<Rightarrow> error + ((string \<times> mp_array) list \<times> 'a heap)" where
  "recordables_loop [] buf_len dtype state = Inr state"
| "recordables_loop (k # ks) buf_len dtype (cur_buf_shm, heap) =
     (case init_shm_ndarray [buf_len] dtype heap of
        Inl e \<Rightarrow> Inl e
      | Inr (b, heap') \<Rightarrow> recordables_loop ks buf_len dtype (dict_setitem cur_buf_shm k b, heap'))"

fun create_dict_buffers_loop :: "int list \<Rightarrow> string list \<Rightarrow> npy_intp \<Rightarrow> np_dtype \<Rightarrow> (string \<times> mp_array) list list \<times> int list \<times> 'a::zero heap \<Rightarrow> error + ((string \<times> mp_array) list list \<times> int list \<times> 'a heap)" where
  "create_dict_buffers_loop [] recordables buf_len dtype state = Inr state"
| "create_dict_buffers_loop (i # is) recordables buf_len dtype (buffers, q, heap) =
     (case recordables_loop recordables buf_len dtype ([], heap) of
        Inl e \<Rightarrow> Inl e
      | Inr (cur_buf_shm, heap') \<Rightarrow>
          create_dict_buffers_loop is recordables buf_len dtype
            (buffers @ [cur_buf_shm], Queue_put q i, heap'))"

definition create_dict_buffers :: "string list \<Rightarrow> int \<Rightarrow> npy_intp \<Rightarrow> np_dtype \<Rightarrow> 'a::zero heap \<Rightarrow> error + ((string \<times> mp_array) list list \<times> int list \<times> 'a heap)" where
  "create_dict_buffers recordables buf_count buf_len dtype heap =
     create_dict_buffers_loop (py_range buf_count) recordables buf_len dtype ([], [], heap)"

text \<open>
  Modelled from the spec: \<^verbatim>\<open>ObjectDict\<close> (\<^verbatim>\<open>awrams.utils.metatypes\<close>) is not among the
  sources. The specification describes what \<^verbatim>\<open>create_shm_dict_inputs\<close> returns as the
  buffers by field name together with a name-to-shape map, so an \<^verbatim>\<open>ObjectDict\<close> is a
  dictionary, and the returned one is the pair of its two entries \<^verbatim>\<open>buffers\<close> and
  \<^verbatim>\<open>shapes\<close>.
\<close>





subsection \<open>Consumers\<close>

text \<open>
  A consumer's session on a \<^verbatim>\<open>BufferManager\<close>: one \<^verbatim>\<open>get_buffer\<close> per entry of the
  list, each followed by \<^verbatim>\<open>reclaim\<close> of the id just returned when the entry is \<open>True\<close>.
  The session ends at the first call that raises or never returns; otherwise it yields
  what the calls returned, in order.
\<close>

fun get_buffer_session :: "bool list \<Rightarrow> 'a heap \<Rightarrow> BufferManager \<Rightarrow> real option \<Rightarrow> (int \<times> 'a np_item) list outcome \<times> BufferManager" where
  "get_buffer_session [] heap self timeout = (Returns [], self)"
| "get_buffer_session (r # rs) heap self timeout =
     (case BufferManager_get_buffer heap self timeout of
        (Blocks, self') \<Rightarrow> (Blocks, self')
      | (Raises e, self') \<Rightarrow> (Raises e, self')
      | (Returns (buffer_id, a), self') \<Rightarrow>
          (case get_buffer_session rs heap
                  (if r then BufferManager_reclaim self' buffer_id else self') timeout of
             (Blocks, self'') \<Rightarrow> (Blocks, self'')
           | (Raises e, self'') \<Rightarrow> (Raises e, self'')
           | (Returns got, self'') \<Rightarrow> (Returns ((buffer_id, a) # got), self'')))"

text \<open>
  Several consumers on one pool of either kind. The system is the pool together with
  the record of who holds which id. A consumer's \<^verbatim>\<open>get_buffer\<close> that returns an id adds
  it to the consumer's holdings; one that raises leaves the holdings as they are; one
  that never returns is no step. The cooperative protocol allows \<^verbatim>\<open>reclaim\<close> only to
  a consumer that holds the id.
\<close>

datatype pool = Pool BufferManager | DictPool BufferedDictManager

fun pool_queue :: "pool \<Rightarrow> int list" where
  "pool_queue (Pool m) = queue m"
| "pool_queue (DictPool m) = queue m"

fun pool_get_buffer :: "'a heap \<Rightarrow> pool \<Rightarrow> int option \<Rightarrow> real option \<Rightarrow> int outcome \<times> pool" where
  "pool_get_buffer heap (Pool m) buffer_len timeout =
     (case BufferManager_get_buffer heap m timeout of
        (Returns (buffer_id, a), m') \<Rightarrow> (Returns buffer_id, Pool m')
      | (Raises e, m') \<Rightarrow> (Raises e, Pool m')
      | (Blocks, m') \<Rightarrow> (Blocks, Pool m'))"
| "pool_get_buffer heap (DictPool m) buffer_len timeout =
     (case BufferedDictManager_get_buffer m buffer_len timeout of
        (Returns (buffer_id, a), m') \<Rightarrow> (Returns buffer_id, DictPool m')
      | (Raises e, m') \<Rightarrow> (Raises e, DictPool m')
      | (Blocks, m') \<Rightarrow> (Blocks, DictPool m'))"

fun pool_reclaim :: "pool \<Rightarrow> int \<Rightarrow> pool" where
  "pool_reclaim (Pool m) buffer_id = Pool (BufferManager_reclaim m buffer_id)"
| "pool_reclaim (DictPool m) buffer_id = DictPool (BufferedDictManager_reclaim m buffer_id)"

definition create_pool :: "int \<Rightarrow> npy_intp list \<Rightarrow> np_dtype \<Rightarrow> 'a::zero heap \<Rightarrow> error + (pool \<times> 'a heap)" where
  "create_pool count shape dtype heap =
     (case create_managed_buffers count shape dtype True heap of
        Inl e \<Rightarrow> Inl e
      | Inr (m, heap') \<Rightarrow> Inr (Pool m, heap'))"

definition create_dict_pool :: "string list \<Rightarrow> int \<Rightarrow> npy_intp \<Rightarrow> np_dtype \<Rightarrow> 'a::zero heap \<Rightarrow> error + (pool \<times> 'a heap)" where
  "create_dict_pool recordables buf_count buf_len dtype heap =
     (case create_dict_buffers recordables buf_count buf_len dtype heap of
        Inl e \<Rightarrow> Inl e
      | Inr (buffers, q, heap') \<Rightarrow>
          (case BufferedDictManager_init buffers q True of
             Inl e \<Rightarrow> Inl e
           | Inr m \<Rightarrow> Inr (DictPool m, heap')))"

datatype event = Get nat "int option" "real option" | Reclaim nat int

record system =
  the_pool :: pool
  checked_out :: "(nat \<times> int) list"

fun step :: "'a heap \<Rightarrow> system \<Rightarrow> event \<Rightarrow> system option" where
  "step heap s (Get c buffer_len timeout) =
     (case pool_get_buffer heap (the_pool s) buffer_len timeout of
        (Returns buffer_id, p) \<Rightarrow>
          Some \<lparr>the_pool = p, checked_out = checked_out s @ [(c, buffer_id)]\<rparr>
      | (Raises e, p) \<Rightarrow> Some (s\<lparr>the_pool := p\<rparr>)
      | (Blocks, p) \<Rightarrow> None)"
| "step heap s (Reclaim c buffer_id) =
     (if (c, buffer_id) \<in> set (checked_out s)
      then Some \<lparr>the_pool = pool_reclaim (the_pool s) buffer_id,
                 checked_out = remove1 (c, buffer_id) (checked_out s)\<rparr>
      else None)"

fun run :: "'a heap \<Rightarrow> system \<Rightarrow> event list \<Rightarrow> system option" where
  "run heap s [] = Some s"
| "run heap s (ev # evs) =
     (case step heap s ev of None \<Rightarrow> None | Some s' \<Rightarrow> run heap s' evs)"

text \<open>
  The free-list invariant for a pool of \<open>N\<close> slots: the queue has no duplicates and
  holds ids of \<open>[0, N)\<close> only, and every id of \<open>[0, N)\<close> is either in the queue and held
  by nobody, or not in the queue and held exactly once.
\<close>

definition holders :: "system \<Rightarrow> int \<Rightarrow> nat list" where
  "holders s i = map fst (filter (\<lambda>(c, j). j = i) (checked_out s))"

definition free_list_invariant :: "nat \<Rightarrow> system \<Rightarrow> bool" where
  "free_list_invariant N s \<longleftrightarrow>
     distinct (pool_queue (the_pool s)) \<and>
     set (pool_queue (the_pool s)) \<subseteq> set (py_range (int N)) \<and>
     (\<forall>i \<in> set (py_range (int N)).
        (i \<in> set (pool_queue (the_pool s)) \<and> holders s i = []) \<or>
        (i \<notin> set (pool_queue (the_pool s)) \<and> length (holders s i) = 1))"

text \<open>
  What the proofs keep about a pool of \<open>N\<close> slots: its views were built, one per slot,
  and every view of a record has a leading axis. \<open>flat_view_of b v\<close>: the view \<open>v\<close> is the
  flat view of the whole buffer \<open>b\<close>.
\<close>

definition sliceable :: "ndarray \<Rightarrow> bool" where
  "sliceable v \<longleftrightarrow> nd_shape v \<noteq> [] \<and> nd_strides v \<noteq> []"

fun pool_built :: "nat \<Rightarrow> pool \<Rightarrow> bool" where
  "pool_built N (Pool m) = (\<exists>np. buffers_np m = Some np \<and> length np = N)"
| "pool_built N (DictPool m) =
     (\<exists>nd. buffers_nd m = Some nd \<and> length nd = N \<and> (\<forall>d\<in>set nd. \<forall>v\<in>snd ` set d. sliceable v))"

definition flat_view_of :: "mp_array \<Rightarrow> ndarray \<Rightarrow> bool" where
  "flat_view_of b v \<longleftrightarrow>
     nd_base v = addr (ctypes_obj b) \<and> nd_offset v = 0 \<and>
     nd_shape v = [nelem (ctypes_obj b)] \<and> nd_strides v = [1]"


definition protocol_invariant :: "nat \<Rightarrow> system \<Rightarrow> bool" where
  "protocol_invariant N s \<longleftrightarrow>
     pool_built N (the_pool s) \<and>
     distinct (pool_queue (the_pool s) @ map snd (checked_out s)) \<and>
     set (pool_queue (the_pool s) @ map snd (checked_out s)) = set (py_range (int N))"

section \<open>Properties\<close>

subsection \<open>The dtype tables and allocation\<close>



lemma ctypes_to_numpy_lookup:
  "dict_getitem ctypes_to_numpy t =
     (case t of c_float \<Rightarrow> Inr float32 | c_double \<Rightarrow> Inr float64
              | typecode_d \<Rightarrow> Inr float64 | typecode_f \<Rightarrow> Inl KeyError)"
  by (cases t) (simp_all add: ctypes_to_numpy_def dict_getitem_def)








subsection \<open>Views\<close>

lemma shm_as_ndarray_obj:
  "shm_as_ndarray a shape_arg ord =
     (case dict_getitem ctypes_to_numpy (type_attr (ctypes_obj a)) of
        Inl e \<Rightarrow> Inl e
      | Inr dt \<Rightarrow> (case shape_arg of None \<Rightarrow> Inr (np_frombuffer (ctypes_obj a) dt)
                   | Some s \<Rightarrow> reshape (np_frombuffer (ctypes_obj a) dt) s ord))"
  by (cases a) (auto simp: shm_as_ndarray_def Let_def split: sum.splits option.splits)

lemma fix_unknown_dimension_nonneg:
  assumes "\<forall>d\<in>set s. 0 \<le> sint d"
  shows "fix_unknown_dimension s n =
           (if prod_list (map sint s) = int n then Inr (map (nat \<circ> sint) s) else Inl ValueError)"
proof -
  from assms have "filter (\<lambda>d. 0 \<le> d) (map sint s) = map sint s"
    and "filter (\<lambda>d. d < 0) (map sint s) = []"
    by (auto simp: filter_empty_conv)
  then show ?thesis
    by (simp add: fix_unknown_dimension_def Let_def)
qed

lemma reshape_nonneg:
  assumes "\<forall>d\<in>set s. 0 \<le> sint d"
  shows "reshape a s ord =
           (if prod_list (map sint s) = int (prod_list (nd_shape a))
            then Inr (a\<lparr>nd_shape := map (nat \<circ> sint) s,
                        nd_strides := (case ord of C_order \<Rightarrow> c_strides (map (nat \<circ> sint) s)
                                       | F_order \<Rightarrow> f_strides 1 (map (nat \<circ> sint) s))\<rparr>)
            else Inl ValueError)"
  by (simp add: reshape_def fix_unknown_dimension_nonneg [OF assms])

text \<open>
  Claim C4, as the code has it. For every shared object whose \<^verbatim>\<open>_type_\<close> is a key of
  \<^verbatim>\<open>_ctypes_to_numpy\<close> (every array of \<^verbatim>\<open>init_shm_ndarray\<close> is one): without a shape,
  \<^verbatim>\<open>shm_as_ndarray\<close> yields the flat one-dimensional view of the whole block; with a
  shape that has no negative dimension it succeeds if and only if the product of the
  dimensions is the element count, it fails with \<^verbatim>\<open>ValueError\<close> (ShapeMismatch) when
  they disagree, and on success the view has the given shape over the same block.
\<close>

theorem view_shape_validation:
  "type_attr (ctypes_obj a) \<noteq> typecode_f \<longrightarrow>
     (\<exists>dt. shm_as_ndarray a None ord =
             Inr \<lparr>nd_base = addr (ctypes_obj a), nd_dtype = dt, nd_offset = 0,
                  nd_shape = [nelem (ctypes_obj a)], nd_strides = [1]\<rparr>) \<and>
     ((\<forall>d\<in>set s. 0 \<le> sint d) \<longrightarrow>
        ((\<exists>v. shm_as_ndarray a (Some s) ord = Inr v) \<longleftrightarrow>
           prod_list (map sint s) = int (nelem (ctypes_obj a))) \<and>
        (prod_list (map sint s) \<noteq> int (nelem (ctypes_obj a)) \<longrightarrow>
           shm_as_ndarray a (Some s) ord = Inl ValueError) \<and>
        (prod_list (map sint s) = int (nelem (ctypes_obj a)) \<longrightarrow>
           (\<exists>v. shm_as_ndarray a (Some s) ord = Inr v \<and> nd_base v = addr (ctypes_obj a) \<and>
                nd_offset v = 0 \<and> nd_shape v = map (nat \<circ> sint) s)))"
proof (intro impI)
  assume reg: "type_attr (ctypes_obj a) \<noteq> typecode_f"
  then obtain dt where dt: "dict_getitem ctypes_to_numpy (type_attr (ctypes_obj a)) = Inr dt"
    by (cases "type_attr (ctypes_obj a)") (simp_all add: ctypes_to_numpy_lookup)
  have flat: "\<exists>dt. shm_as_ndarray a None ord =
             Inr \<lparr>nd_base = addr (ctypes_obj a), nd_dtype = dt, nd_offset = 0,
                  nd_shape = [nelem (ctypes_obj a)], nd_strides = [1]\<rparr>"
    by (simp add: shm_as_ndarray_obj dt np_frombuffer_def)
  have shaped: "(\<forall>d\<in>set s. 0 \<le> sint d) \<longrightarrow>
        ((\<exists>v. shm_as_ndarray a (Some s) ord = Inr v) \<longleftrightarrow>
           prod_list (map sint s) = int (nelem (ctypes_obj a))) \<and>
        (prod_list (map sint s) \<noteq> int (nelem (ctypes_obj a)) \<longrightarrow>
           shm_as_ndarray a (Some s) ord = Inl ValueError) \<and>
        (prod_list (map sint s) = int (nelem (ctypes_obj a)) \<longrightarrow>
           (\<exists>v. shm_as_ndarray a (Some s) ord = Inr v \<and> nd_base v = addr (ctypes_obj a) \<and>
                nd_offset v = 0 \<and> nd_shape v = map (nat \<circ> sint) s))"
  proof
    assume nonneg: "\<forall>d\<in>set s. 0 \<le> sint d"
    have "shm_as_ndarray a (Some s) ord = reshape (np_frombuffer (ctypes_obj a) dt) s ord"
      by (simp add: shm_as_ndarray_obj dt)
    then show "((\<exists>v. shm_as_ndarray a (Some s) ord = Inr v) \<longleftrightarrow>
           prod_list (map sint s) = int (nelem (ctypes_obj a))) \<and>
        (prod_list (map sint s) \<noteq> int (nelem (ctypes_obj a)) \<longrightarrow>
           shm_as_ndarray a (Some s) ord = Inl ValueError) \<and>
        (prod_list (map sint s) = int (nelem (ctypes_obj a)) \<longrightarrow>
           (\<exists>v. shm_as_ndarray a (Some s) ord = Inr v \<and> nd_base v = addr (ctypes_obj a) \<and>
                nd_offset v = 0 \<and> nd_shape v = map (nat \<circ> sint) s))"
      by (simp add: reshape_nonneg [OF nonneg] np_frombuffer_def)
  qed
  from flat shaped show "(\<exists>dt. shm_as_ndarray a None ord =
             Inr \<lparr>nd_base = addr (ctypes_obj a), nd_dtype = dt, nd_offset = 0,
                  nd_shape = [nelem (ctypes_obj a)], nd_strides = [1]\<rparr>) \<and>
     ((\<forall>d\<in>set s. 0 \<le> sint d) \<longrightarrow>
        ((\<exists>v. shm_as_ndarray a (Some s) ord = Inr v) \<longleftrightarrow>
           prod_list (map sint s) = int (nelem (ctypes_obj a))) \<and>
        (prod_list (map sint s) \<noteq> int (nelem (ctypes_obj a)) \<longrightarrow>
           shm_as_ndarray a (Some s) ord = Inl ValueError) \<and>
        (prod_list (map sint s) = int (nelem (ctypes_obj a)) \<longrightarrow>
           (\<exists>v. shm_as_ndarray a (Some s) ord = Inr v \<and> nd_base v = addr (ctypes_obj a) \<and>
                nd_offset v = 0 \<and> nd_shape v = map (nat \<circ> sint) s)))"
    by blast
qed

theorem view_shape_validation_witness:
  "(\<exists>dt. shm_as_ndarray (Raw \<lparr>type_attr = c_double, addr = 0, nelem = 6\<rparr>) None C_order =
           Inr \<lparr>nd_base = 0, nd_dtype = dt, nd_offset = 0, nd_shape = [6], nd_strides = [1]\<rparr>) \<and>
   (\<exists>v. shm_as_ndarray (Raw \<lparr>type_attr = c_double, addr = 0, nelem = 6\<rparr>) (Some [2, 3]) C_order = Inr v \<and>
        nd_base v = 0 \<and> nd_offset v = 0 \<and> nd_shape v = [2, 3]) \<and>
   shm_as_ndarray (Raw \<lparr>type_attr = c_double, addr = 0, nelem = 6\<rparr>) (Some [4, 2]) C_order = Inl ValueError"
  using view_shape_validation [of "Raw \<lparr>type_attr = c_double, addr = 0, nelem = 6\<rparr>" C_order "[2, 3]"]
    view_shape_validation [of "Raw \<lparr>type_attr = c_double, addr = 0, nelem = 6\<rparr>" C_order "[4, 2]"]
  by simp

text \<open>
  The claim fails for a shape with a negative dimension, which \<^verbatim>\<open>reshape\<close> infers: the
  shape \<open>(-1,)\<close> fits a block of 6 elements although its product is not 6. It also fails
  for the single \<open>float32\<close> value of \<^verbatim>\<open>init_shm_value\<close>: its \<^verbatim>\<open>_type_\<close> is \<^verbatim>\<open>'f'\<close>, which
  is no key of the table, so the view fails with \<^verbatim>\<open>KeyError\<close> although the shape
  \<open>(1,)\<close> matches.
\<close>

theorem view_shape_validation_counterexample:
  "shm_as_ndarray (Raw \<lparr>type_attr = c_double, addr = 0, nelem = 6\<rparr>) (Some [- 1]) C_order =
     Inr \<lparr>nd_base = 0, nd_dtype = float64, nd_offset = 0, nd_shape = [6], nd_strides = [1]\<rparr> \<and>
   prod_list (map sint [- 1 :: npy_intp]) \<noteq> 6 \<and>
   init_shm_value float32 ([] :: real heap) = Inr (Raw \<lparr>type_attr = typecode_f, addr = 0, nelem = 1\<rparr>, [[0]]) \<and>
   shm_as_ndarray (Raw \<lparr>type_attr = typecode_f, addr = 0, nelem = 1\<rparr>) (Some [1]) C_order = Inl KeyError \<and>
   prod_list (map sint [1 :: npy_intp]) = 1"
  by (simp add: shm_as_ndarray_obj ctypes_to_numpy_lookup reshape_def fix_unknown_dimension_def
      np_frombuffer_def init_shm_value_def numpy_to_ctypes_def ctypes_to_numpy_def dict_of_def
      dict_getitem_def mp_Value_def wrap_def)

subsection \<open>The free list\<close>

lemma list_getitem_nonneg:
  "0 \<le> i \<Longrightarrow> i < int (length xs) \<Longrightarrow> list_getitem xs i = Inr (xs ! nat i)"
  by (simp add: list_getitem_def)

lemma BufferManager_get_buffer_Returns:
  assumes "queue m = i # q" and "buffers_np m = Some np" and "0 \<le> i" and "i < int (length np)"
  shows "BufferManager_get_buffer heap m timeout = (Returns (i, Array (np ! nat i)), m\<lparr>queue := q\<rparr>)"
  using assms
  by (simp add: BufferManager_get_buffer_def BufferManager_map_buffer_def list_getitem_nonneg)

lemma BufferManager_get_buffer_empty:
  assumes "queue m = []"
  shows "BufferManager_get_buffer heap m None = (Blocks, m)"
    and "BufferManager_get_buffer heap m (Some t) = (Raises Empty, m)"
  using assms by (simp_all add: BufferManager_get_buffer_def)

lemma BufferedDictManager_get_buffer_empty:
  assumes "queue m = []"
  shows "BufferedDictManager_get_buffer m buffer_len None = (Blocks, m)"
    and "BufferedDictManager_get_buffer m buffer_len (Some t) = (Raises Empty, m)"
  using assms by (simp_all add: BufferedDictManager_get_buffer_def)

text \<open>
  Claim C9. On either manager, \<^verbatim>\<open>get_buffer\<close> with a timeout on a queue that stays empty
  fails with \<^verbatim>\<open>Empty\<close> (Timeout) and leaves the manager exactly as it was: the queue
  and every other field are unchanged.
\<close>

theorem timeout_atomicity:
  "(queue m = [] \<longrightarrow> BufferManager_get_buffer heap m (Some timeout) = (Raises Empty, m)) \<and>
   (queue dm = [] \<longrightarrow>
      BufferedDictManager_get_buffer dm buffer_len (Some timeout) = (Raises Empty, dm))"
  by (simp add: BufferManager_get_buffer_empty BufferedDictManager_get_buffer_empty)

theorem timeout_atomicity_witness:
  "BufferManager_get_buffer ([] :: real heap)
     \<lparr>queue = [], buffers_shm = [], buf_shape = None, buffers_np = Some []\<rparr> (Some 2) =
     (Raises Empty, \<lparr>queue = [], buffers_shm = [], buf_shape = None, buffers_np = Some []\<rparr>) \<and>
   BufferedDictManager_get_buffer \<lparr>queue = [], buffers_shm = [], buffers_nd = Some []\<rparr> (Some 4) (Some 2) =
     (Raises Empty, \<lparr>queue = [], buffers_shm = [], buffers_nd = Some []\<rparr>)"
  using timeout_atomicity [of "\<lparr>queue = [], buffers_shm = [], buf_shape = None, buffers_np = Some []\<rparr>"
      "[] :: real heap" 2 "\<lparr>queue = [], buffers_shm = [], buffers_nd = Some []\<rparr>" "Some 4"]
  by simp

text \<open>
  Claim C10. On either manager, \<^verbatim>\<open>reclaim\<close> never fails and appends the id to the
  queue whatever the id is; reclaiming the same id twice leaves a queue with a
  duplicate.
\<close>

theorem unvalidated_reclaim:
  "BufferManager_reclaim m i = m\<lparr>queue := queue m @ [i]\<rparr> \<and>
   BufferedDictManager_reclaim dm i = dm\<lparr>queue := queue dm @ [i]\<rparr> \<and>
   \<not> distinct (queue (BufferManager_reclaim (BufferManager_reclaim m i) i)) \<and>
   \<not> distinct (queue (BufferedDictManager_reclaim (BufferedDictManager_reclaim dm i) i))"
  by (simp add: BufferManager_reclaim_def BufferedDictManager_reclaim_def Queue_put_def)

lemma session_result:
  assumes "buffers_np m = Some np"
    and "\<forall>i\<in>set (queue m). 0 \<le> i \<and> i < int (length np)"
    and "length rs \<le> length (queue m)"
  shows "get_buffer_session rs heap m timeout =
           (Returns (map (\<lambda>i. (i, Array (np ! nat i))) (take (length rs) (queue m))),
            m\<lparr>queue := drop (length rs) (queue m) @ map snd (filter fst (zip rs (queue m)))\<rparr>)"
  using assms
proof (induction rs arbitrary: m)
  case Nil
  then show ?case by simp
next
  case (Cons r rs)
  then obtain i q where q: "queue m = i # q"
    by (cases "queue m") auto
  with Cons.prems have i: "0 \<le> i" "i < int (length np)" by auto
  let ?m2 = "if r then BufferManager_reclaim (m\<lparr>queue := q\<rparr>) i else m\<lparr>queue := q\<rparr>"
  have q2: "queue ?m2 = q @ (if r then [i] else [])"
    by (simp add: BufferManager_reclaim_def Queue_put_def)
  have np2: "buffers_np ?m2 = Some np"
    using Cons.prems(1) by (simp add: BufferManager_reclaim_def)
  have valid2: "\<forall>j\<in>set (queue ?m2). 0 \<le> j \<and> j < int (length np)"
    using Cons.prems(2) q by (auto simp: q2)
  have len2: "length rs \<le> length (queue ?m2)"
    using Cons.prems(3) q by (simp add: q2)
  have lenq: "length rs \<le> length q"
    using Cons.prems(3) q by simp
  have m2: "?m2\<lparr>queue := x\<rparr> = m\<lparr>queue := x\<rparr>" for x
    by (simp add: BufferManager_reclaim_def)
  have step: "BufferManager_get_buffer heap m timeout = (Returns (i, Array (np ! nat i)), m\<lparr>queue := q\<rparr>)"
    by (rule BufferManager_get_buffer_Returns [OF q Cons.prems(1) i])
  have "get_buffer_session (r # rs) heap m timeout =
          (case get_buffer_session rs heap ?m2 timeout of
             (Blocks, self'') \<Rightarrow> (Blocks, self'')
           | (Raises e, self'') \<Rightarrow> (Raises e, self'')
           | (Returns got, self'') \<Rightarrow> (Returns ((i, Array (np ! nat i)) # got), self''))"
    by (simp add: step)
  also have "\<dots> = (Returns ((i, Array (np ! nat i)) # map (\<lambda>i. (i, Array (np ! nat i))) (take (length rs) (queue ?m2))),
            ?m2\<lparr>queue := drop (length rs) (queue ?m2) @ map snd (filter fst (zip rs (queue ?m2)))\<rparr>)"
    by (simp only: Cons.IH [OF np2 valid2 len2] prod.case outcome.case)
  also have "\<dots> = (Returns (map (\<lambda>i. (i, Array (np ! nat i))) (take (length (r # rs)) (queue m))),
            m\<lparr>queue := drop (length (r # rs)) (queue m) @ map snd (filter fst (zip (r # rs) (queue m)))\<rparr>)"
    using lenq by (simp only: m2 q2) (simp add: q zip_append2)
  finally show ?case .
qed

lemma create_buffers_loop_Inr:
  "create_buffers_loop is shape dtype (bs, q, h) = Inr (bs', q', h') \<Longrightarrow>
     q' = q @ is \<and> length bs' = length bs + length is"
proof (induction "is" arbitrary: bs q h)
  case Nil
  then show ?case by simp
next
  case (Cons i "is")
  from Cons.prems obtain b h1 where
    "create_buffers_loop is shape dtype (bs @ [b], Queue_put q i, h1) = Inr (bs', q', h')"
    by (auto split: sum.splits)
  from Cons.IH [OF this] show ?case by (simp add: Queue_put_def)
qed

lemma rebuild_loop_None:
  "rebuild_loop bs shape acc = (None, np) \<Longrightarrow> length np = length acc + length bs"
  by (induction bs arbitrary: acc) (auto split: sum.splits)

lemma BufferManager_rebuild_buffers_Inr:
  assumes "BufferManager_rebuild_buffers self = (Inr u, self')"
  shows "\<exists>np. rebuild_loop (buffers_shm self) (buf_shape self) [] = (None, np) \<and>
              self' = self\<lparr>buffers_np := Some np\<rparr>"
  using assms
  by (auto simp: BufferManager_rebuild_buffers_def split: prod.splits option.splits)

lemma BufferManager_init_build:
  assumes "BufferManager_init buffers q shape True = Inr m"
  shows "queue m = q \<and> buffers_shm m = buffers \<and>
         (\<exists>np. buffers_np m = Some np \<and> length np = length buffers)"
proof -
  let ?self = "\<lparr>queue = q, buffers_shm = buffers, buf_shape = shape, buffers_np = None\<rparr>"
  from assms obtain u where "BufferManager_rebuild_buffers ?self = (Inr u, m)"
    by (auto simp: BufferManager_init_def Let_def split: prod.splits sum.splits)
  from BufferManager_rebuild_buffers_Inr [OF this] obtain np where
    "rebuild_loop buffers shape [] = (None, np)" and "m = ?self\<lparr>buffers_np := Some np\<rparr>"
    by auto
  then show ?thesis
    by (auto dest: rebuild_loop_None)
qed

lemma create_managed_buffers_Inr:
  assumes "create_managed_buffers count shape dtype True heap = Inr (m, heap')"
  shows "queue m = py_range count \<and> (\<exists>np. buffers_np m = Some np \<and> length np = nat count)"
proof -
  from assms obtain buffers q where
    cb: "create_buffers count shape dtype heap = Inr (buffers, q, heap')"
    and init: "BufferManager_init buffers q (Some shape) True = Inr m"
    by (auto simp: create_managed_buffers_def split: sum.splits)
  from cb have "q = py_range count" "length buffers = nat count"
    by (auto simp: create_buffers_def py_range_def dest: create_buffers_loop_Inr)
  with BufferManager_init_build [OF init] show ?thesis by auto
qed

text \<open>
  Claim C2. A pool of \<open>count > 0\<close> slots made by \<^verbatim>\<open>create_managed_buffers\<close> (the free
  list seeded by \<^verbatim>\<open>create_buffers\<close> with \<open>0 .. count - 1\<close>, the views built): \<open>count\<close>
  calls of \<^verbatim>\<open>get_buffer\<close> with no \<^verbatim>\<open>reclaim\<close> in between all return, with the \<open>count\<close>
  distinct ids \<open>0 .. count - 1\<close>; the next call never returns when no timeout is given
  and fails with \<^verbatim>\<open>Empty\<close> (Timeout) when one is.
\<close>

theorem pool_drain:
  assumes "0 < count"
    and "create_managed_buffers count shape dtype True heap0 = Inr (m, heap1)"
  shows "\<exists>got m'. get_buffer_session (replicate (nat count) False) heap m timeout = (Returns got, m') \<and>
           length got = nat count \<and> map fst got = py_range count \<and> distinct (map fst got) \<and>
           BufferManager_get_buffer heap m' None = (Blocks, m') \<and>
           (\<forall>t. BufferManager_get_buffer heap m' (Some t) = (Raises Empty, m'))"
proof -
  from create_managed_buffers_Inr [OF assms(2)] obtain np where
    q: "queue m = py_range count" and np: "buffers_np m = Some np" and len: "length np = nat count"
    by auto
  have valid: "\<forall>i\<in>set (queue m). 0 \<le> i \<and> i < int (length np)"
    by (auto simp: q len py_range_def)
  have lenq: "length (replicate (nat count) False) \<le> length (queue m)"
    by (simp add: q py_range_def)
  let ?got = "map (\<lambda>i. (i, Array (np ! nat i)) :: int \<times> 'b np_item) (py_range count)"
  let ?m' = "m\<lparr>queue := []\<rparr>"
  have nofilter: "filter fst (zip (replicate n False) xs) = []" for n and xs :: "int list"
    by (auto simp: filter_empty_conv dest: set_zip_leftD)
  have "get_buffer_session (replicate (nat count) False) heap m timeout = (Returns ?got, ?m')"
    using session_result [OF np valid lenq, of heap timeout]
    by (simp add: q py_range_def nofilter)
  moreover have "length ?got = nat count" "map fst ?got = py_range count"
    by (simp_all add: py_range_def comp_def)
  moreover have "distinct (py_range count)"
    by (simp add: py_range_def distinct_map inj_on_def)
  moreover have "BufferManager_get_buffer heap ?m' None = (Blocks, ?m')"
    and "\<forall>t. BufferManager_get_buffer heap ?m' (Some t) = (Raises Empty, ?m')"
    by (simp_all add: BufferManager_get_buffer_empty)
  ultimately show ?thesis by (metis (no_types, lifting))
qed

theorem pool_drain_witness:
  "(0 :: int) < 2 \<and>
   create_managed_buffers 2 [3] float64 True ([] :: real heap) =
     Inr (\<lparr>queue = [0, 1],
            buffers_shm = [Raw \<lparr>type_attr = c_double, addr = 0, nelem = 3\<rparr>,
                           Raw \<lparr>type_attr = c_double, addr = 1, nelem = 3\<rparr>],
            buf_shape = Some [3],
            buffers_np = Some [\<lparr>nd_base = 0, nd_dtype = float64, nd_offset = 0,
                                 nd_shape = [3], nd_strides = [1]\<rparr>,
                               \<lparr>nd_base = 1, nd_dtype = float64, nd_offset = 0,
                                 nd_shape = [3], nd_strides = [1]\<rparr>]\<rparr>,
          [[0, 0, 0], [0, 0, 0]]) \<and>
   (\<exists>got m'. get_buffer_session (replicate (nat 2) False) ([[0, 0, 0], [0, 0, 0]] :: real heap)
        \<lparr>queue = [0, 1],
            buffers_shm = [Raw \<lparr>type_attr = c_double, addr = 0, nelem = 3\<rparr>,
                           Raw \<lparr>type_attr = c_double, addr = 1, nelem = 3\<rparr>],
            buf_shape = Some [3],
            buffers_np = Some [\<lparr>nd_base = 0, nd_dtype = float64, nd_offset = 0,
                                 nd_shape = [3], nd_strides = [1]\<rparr>,
                               \<lparr>nd_base = 1, nd_dtype = float64, nd_offset = 0,
                                 nd_shape = [3], nd_strides = [1]\<rparr>]\<rparr> None = (Returns got, m') \<and>
      length got = nat 2 \<and> map fst got = py_range 2 \<and> distinct (map fst got) \<and>
      BufferManager_get_buffer ([[0, 0, 0], [0, 0, 0]] :: real heap) m' None = (Blocks, m') \<and>
      (\<forall>t. BufferManager_get_buffer ([[0, 0, 0], [0, 0, 0]] :: real heap) m' (Some t) = (Raises Empty, m')))"
proof -
  have pos: "(0 :: int) < 2" by simp
  have made: "create_managed_buffers 2 [3] float64 True ([] :: real heap) =
     Inr (\<lparr>queue = [0, 1],
            buffers_shm = [Raw \<lparr>type_attr = c_double, addr = 0, nelem = 3\<rparr>,
                           Raw \<lparr>type_attr = c_double, addr = 1, nelem = 3\<rparr>],
            buf_shape = Some [3],
            buffers_np = Some [\<lparr>nd_base = 0, nd_dtype = float64, nd_offset = 0,
                                 nd_shape = [3], nd_strides = [1]\<rparr>,
                               \<lparr>nd_base = 1, nd_dtype = float64, nd_offset = 0,
                                 nd_shape = [3], nd_strides = [1]\<rparr>]\<rparr>,
          [[0, 0, 0], [0, 0, 0]])"
    by code_simp
  show ?thesis
    by (intro conjI pos made pool_drain [OF pos made])
qed

text \<open>
  Claim C3. When the ids \<open>a\<close>, \<open>b\<close>, \<open>c\<close> are put into an empty free list in that order,
  three \<^verbatim>\<open>get_buffer\<close> calls of one consumer return them in that order, whether or not
  the consumer reclaims the id just returned after each call.
\<close>

theorem single_consumer_fifo:
  assumes "queue m0 = []" and "buffers_np m0 = Some np"
    and "\<forall>i\<in>{a, b, c}. 0 \<le> i \<and> i < int (length np)"
  shows "\<exists>got m'. get_buffer_session [r1, r2, r3] heap
                    (BufferManager_reclaim (BufferManager_reclaim (BufferManager_reclaim m0 a) b) c)
                    timeout = (Returns got, m') \<and>
                  map fst got = [a, b, c]"
proof -
  let ?m = "BufferManager_reclaim (BufferManager_reclaim (BufferManager_reclaim m0 a) b) c"
  have q: "queue ?m = [a, b, c]"
    by (simp add: BufferManager_reclaim_def Queue_put_def assms(1))
  have np: "buffers_np ?m = Some np"
    by (simp add: BufferManager_reclaim_def assms(2))
  have valid: "\<forall>i\<in>set (queue ?m). 0 \<le> i \<and> i < int (length np)"
    using assms(3) by (simp add: q)
  have len: "length [r1, r2, r3] \<le> length (queue ?m)"
    by (simp add: q)
  show ?thesis
    using session_result [OF np valid len, of heap timeout]
    by (simp add: q comp_def)
qed

theorem single_consumer_fifo_witness:
  "\<exists>got m'. get_buffer_session [True, False, True] ([] :: real heap)
      (BufferManager_reclaim (BufferManager_reclaim (BufferManager_reclaim
         \<lparr>queue = [], buffers_shm = [], buf_shape = None,
            buffers_np = Some [\<lparr>nd_base = 0, nd_dtype = float64, nd_offset = 0,
                                 nd_shape = [3], nd_strides = [1]\<rparr>,
                               \<lparr>nd_base = 1, nd_dtype = float64, nd_offset = 0,
                                 nd_shape = [3], nd_strides = [1]\<rparr>,
                               \<lparr>nd_base = 2, nd_dtype = float64, nd_offset = 0,
                                 nd_shape = [3], nd_strides = [1]\<rparr>]\<rparr> 2) 0) 1) (Some 1) = (Returns got, m') \<and>
      map fst got = [2, 0, 1]"
proof (rule single_consumer_fifo)
  show "queue \<lparr>queue = [], buffers_shm = [], buf_shape = None,
            buffers_np = Some [\<lparr>nd_base = 0, nd_dtype = float64, nd_offset = 0,
                                 nd_shape = [3], nd_strides = [1]\<rparr>,
                               \<lparr>nd_base = 1, nd_dtype = float64, nd_offset = 0,
                                 nd_shape = [3], nd_strides = [1]\<rparr>,
                               \<lparr>nd_base = 2, nd_dtype = float64, nd_offset = 0,
                                 nd_shape = [3], nd_strides = [1]\<rparr>]\<rparr> = []"
    by simp
  show "buffers_np \<lparr>queue = [], buffers_shm = [], buf_shape = None,
            buffers_np = Some [\<lparr>nd_base = 0, nd_dtype = float64, nd_offset = 0,
                                 nd_shape = [3], nd_strides = [1]\<rparr>,
                               \<lparr>nd_base = 1, nd_dtype = float64, nd_offset = 0,
                                 nd_shape = [3], nd_strides = [1]\<rparr>,
                               \<lparr>nd_base = 2, nd_dtype = float64, nd_offset = 0,
                                 nd_shape = [3], nd_strides = [1]\<rparr>]\<rparr> = Some [\<lparr>nd_base = 0, nd_dtype = float64, nd_offset = 0,
                                 nd_shape = [3], nd_strides = [1]\<rparr>,
                               \<lparr>nd_base = 1, nd_dtype = float64, nd_offset = 0,
                                 nd_shape = [3], nd_strides = [1]\<rparr>,
                               \<lparr>nd_base = 2, nd_dtype = float64, nd_offset = 0,
                                 nd_shape = [3], nd_strides = [1]\<rparr>]"
    by simp
  show "\<forall>i\<in>{2, 0, 1}. 0 \<le> i \<and> i < int (length [\<lparr>nd_base = 0, nd_dtype = float64, nd_offset = 0,
                                 nd_shape = [3], nd_strides = [1]\<rparr>,
                               \<lparr>nd_base = 1, nd_dtype = float64, nd_offset = 0,
                                 nd_shape = [3], nd_strides = [1]\<rparr>,
                               \<lparr>nd_base = 2, nd_dtype = float64, nd_offset = 0,
                                 nd_shape = [3], nd_strides = [1]\<rparr>])"
    by simp
qed

subsection \<open>The cooperative protocol\<close>

lemma set_dict_setitem: "set (dict_setitem d k v) \<subseteq> insert (k, v) (set d)"
  by (induction d) (auto split: if_splits)

lemma slice_indices_step_None:
  "\<exists>b e. slice_indices start stop None len = Inr (b, e, 1)"
  by (simp add: slice_indices_def Let_def)

lemma index_view_slice_ok:
  assumes "sliceable v"
  shows "\<exists>a. index_view v [Slice start stop None] = Inr a"
proof -
  from assms obtain d ds s ss where "nd_shape v = d # ds" "nd_strides v = s # ss"
    by (cases "nd_shape v"; cases "nd_strides v") (auto simp: sliceable_def)
  moreover obtain b e where "slice_indices start stop None (int d) = Inr (b, e, 1)"
    using slice_indices_step_None by blast
  ultimately show ?thesis
    by (simp add: index_view_def Let_def)
qed

lemma truncate_loop_ok:
  assumes "\<forall>v\<in>snd ` set items. sliceable v"
  shows "\<exists>r. truncate_loop items len acc = Inr r"
  using assms
proof (induction items arbitrary: acc)
  case Nil
  then show ?case by simp
next
  case (Cons kv items)
  obtain k v where kv: "kv = (k, v)" by (cases kv)
  with Cons.prems have "sliceable v" by simp
  then obtain a where "index_view v [Slice (Some 0) (Some len) None] = Inr a"
    using index_view_slice_ok by blast
  moreover from Cons.prems have "\<forall>v\<in>snd ` set items. sliceable v" by simp
  ultimately show ?case
    using Cons.IH by (simp add: kv)
qed

lemma pool_get_buffer_nonempty:
  assumes "pool_built N p" and "pool_queue p = i # q" and "0 \<le> i" and "i < int N"
  shows "\<exists>p'. pool_get_buffer heap p buffer_len timeout = (Returns i, p') \<and>
              pool_queue p' = q \<and> pool_built N p'"
proof (cases p)
  case (Pool m)
  with assms obtain np where "buffers_np m = Some np" "length np = N" "queue m = i # q"
    by auto
  with assms(3,4) have "BufferManager_get_buffer heap m timeout =
      (Returns (i, Array (np ! nat i)), m\<lparr>queue := q\<rparr>)"
    by (simp add: BufferManager_get_buffer_Returns)
  with Pool \<open>buffers_np m = Some np\<close> \<open>length np = N\<close> show ?thesis
    by simp
next
  case (DictPool m)
  with assms obtain nd where nd: "buffers_nd m = Some nd" "length nd = N"
    "\<forall>d\<in>set nd. \<forall>v\<in>snd ` set d. sliceable v" and q: "queue m = i # q"
    by auto
  from nd(2) assms(3,4) have item: "list_getitem nd i = Inr (nd ! nat i)" and "nd ! nat i \<in> set nd"
    by (simp_all add: list_getitem_nonneg)
  with nd(3) have "\<forall>v\<in>snd ` set (nd ! nat i). sliceable v" by blast
  then have "\<exists>r. truncate_loop (nd ! nat i) len [] = Inr r" for len
    by (rule truncate_loop_ok)
  then have "\<exists>r. BufferedDictManager_map_buffer (m\<lparr>queue := q\<rparr>) i buffer_len = Inr r"
    by (cases buffer_len) (simp_all add: BufferedDictManager_map_buffer_def nd(1) item)
  then obtain r where "BufferedDictManager_map_buffer (m\<lparr>queue := q\<rparr>) i buffer_len = Inr r" ..
  then have "BufferedDictManager_get_buffer m buffer_len timeout = (Returns (i, r), m\<lparr>queue := q\<rparr>)"
    by (simp add: BufferedDictManager_get_buffer_def q)
  with DictPool nd show ?thesis
    by auto
qed

lemma pool_get_buffer_empty:
  assumes "pool_queue p = []"
  shows "pool_get_buffer heap p buffer_len None = (Blocks, p)"
    and "pool_get_buffer heap p buffer_len (Some t) = (Raises Empty, p)"
  using assms
  by (cases p; simp add: BufferManager_get_buffer_empty BufferedDictManager_get_buffer_empty)+

lemma pool_reclaim_queue:
  "pool_queue (pool_reclaim p i) = pool_queue p @ [i]"
  by (cases p) (simp_all add: BufferManager_reclaim_def BufferedDictManager_reclaim_def Queue_put_def)

lemma pool_reclaim_built:
  "pool_built N (pool_reclaim p i) = pool_built N p"
  by (cases p) (simp_all add: BufferManager_reclaim_def BufferedDictManager_reclaim_def)

lemma map_snd_remove1:
  assumes "distinct (map snd xs)" and "(c, i) \<in> set xs"
  shows "map snd (remove1 (c, i) xs) = remove1 i (map snd xs)"
  using assms
proof (induction xs)
  case Nil
  then show ?case by simp
next
  case (Cons x xs)
  then show ?case
    by (cases x) (auto simp: rev_image_eqI)
qed

lemma step_invariant:
  assumes "protocol_invariant N s" and "step heap s ev = Some s'"
  shows "protocol_invariant N s'"
proof (cases ev)
  case (Get c buffer_len timeout)
  show ?thesis
  proof (cases "pool_queue (the_pool s)")
    case Nil
    with assms Get show ?thesis
      by (cases timeout) (auto simp: pool_get_buffer_empty protocol_invariant_def)
  next
    case (Cons i q)
    with assms(1) have "i \<in> set (py_range (int N))"
      by (auto simp: protocol_invariant_def)
    then have i: "0 \<le> i" "i < int N"
      by (auto simp: py_range_def)
    from assms(1) have "pool_built N (the_pool s)"
      by (simp add: protocol_invariant_def)
    from pool_get_buffer_nonempty [OF this Cons i] obtain p' where
      p': "pool_get_buffer heap (the_pool s) buffer_len timeout = (Returns i, p')"
      "pool_queue p' = q" "pool_built N p'"
      by blast
    with assms(2) Get have s': "s' = \<lparr>the_pool = p', checked_out = checked_out s @ [(c, i)]\<rparr>"
      by simp
    from assms(1) Cons have d: "distinct ((i # q) @ map snd (checked_out s))"
      and c: "set ((i # q) @ map snd (checked_out s)) = set (py_range (int N))"
      by (simp_all add: protocol_invariant_def)
    from d have "distinct (q @ map snd (checked_out s) @ [i])"
      by auto
    moreover from c have "set (q @ map snd (checked_out s) @ [i]) = set (py_range (int N))"
      by auto
    ultimately show ?thesis
      by (simp add: protocol_invariant_def s' p')
  qed
next
  case (Reclaim c i)
  with assms(2) have held: "(c, i) \<in> set (checked_out s)"
    and s': "s' = \<lparr>the_pool = pool_reclaim (the_pool s) i,
                    checked_out = remove1 (c, i) (checked_out s)\<rparr>"
    by (auto split: if_splits)
  from assms(1) have d: "distinct (map snd (checked_out s))"
    by (simp add: protocol_invariant_def)
  have ids: "map snd (remove1 (c, i) (checked_out s)) = remove1 i (map snd (checked_out s))"
    by (rule map_snd_remove1 [OF d held])
  from held have mem: "i \<in> set (map snd (checked_out s))"
    by (force simp: image_iff)
  from assms(1) mem show ?thesis
    unfolding protocol_invariant_def s'
    by (auto simp: pool_reclaim_queue pool_reclaim_built ids set_remove1_eq dest: notin_set_remove1)
qed

lemma run_invariant:
  assumes "protocol_invariant N s" and "run heap s evs = Some s'"
  shows "protocol_invariant N s'"
  using assms
proof (induction evs arbitrary: s)
  case Nil
  then show ?case by simp
next
  case (Cons ev evs)
  then obtain s1 where "step heap s ev = Some s1" "run heap s1 evs = Some s'"
    by (auto split: option.splits)
  with Cons.IH step_invariant [OF Cons.prems(1)] show ?case by blast
qed

lemma holders_unique:
  assumes "distinct (map snd xs)" and "i \<in> snd ` set xs"
  shows "length (filter (\<lambda>(c, j). j = i) xs) = 1"
  using assms
proof (induction xs)
  case Nil
  then show ?case by simp
next
  case (Cons x xs)
  show ?case
  proof (cases "snd x = i")
    case True
    with Cons.prems(1) have "filter (\<lambda>(c, j). j = i) xs = []"
      by (auto simp: filter_empty_conv image_iff)
    with True show ?thesis by (cases x) simp
  next
    case False
    with Cons show ?thesis by (cases x) auto
  qed
qed

lemma protocol_invariant_free_list:
  assumes "protocol_invariant N s"
  shows "free_list_invariant N s"
proof -
  let ?q = "pool_queue (the_pool s)"
  let ?h = "map snd (checked_out s)"
  from assms have d: "distinct ?q" "distinct ?h" "set ?q \<inter> set ?h = {}"
    and cover: "set ?q \<union> set ?h = set (py_range (int N))"
    by (auto simp: protocol_invariant_def)
  have "(i \<in> set ?q \<and> holders s i = []) \<or> (i \<notin> set ?q \<and> length (holders s i) = 1)"
    if "i \<in> set (py_range (int N))" for i
  proof (cases "i \<in> set ?q")
    case True
    with d(3) have "i \<notin> snd ` set (checked_out s)" by auto
    then have "holders s i = []"
      by (auto simp: holders_def filter_empty_conv image_iff)
    with True show ?thesis by simp
  next
    case False
    with cover that have "i \<in> snd ` set (checked_out s)" by auto
    from holders_unique [OF d(2) this] False show ?thesis
      by (simp add: holders_def)
  qed
  with d(1) cover show ?thesis
    unfolding free_list_invariant_def by blast
qed

lemma create_pool_built:
  assumes "create_pool count shape dtype heap = Inr (p, heap')"
  shows "pool_built (nat count) p \<and> pool_queue p = py_range count"
proof -
  from assms obtain m where "create_managed_buffers count shape dtype True heap = Inr (m, heap')"
    and "p = Pool m"
    by (auto simp: create_pool_def split: sum.splits)
  with create_managed_buffers_Inr [of count shape dtype heap m heap'] show ?thesis
    by auto
qed

lemma create_dict_buffers_loop_Inr:
  "create_dict_buffers_loop is recordables buf_len dtype (bs, q, h) = Inr (bs', q', h') \<Longrightarrow>
     q' = q @ is \<and> length bs' = length bs + length is"
proof (induction "is" arbitrary: bs q h)
  case Nil
  then show ?case by simp
next
  case (Cons i "is")
  from Cons.prems obtain b h1 where
    "create_dict_buffers_loop is recordables buf_len dtype (bs @ [b], Queue_put q i, h1) = Inr (bs', q', h')"
    by (auto split: sum.splits)
  from Cons.IH [OF this] show ?case by (simp add: Queue_put_def)
qed

lemma shm_as_ndarray_flat_sliceable:
  assumes "shm_as_ndarray b None ord = Inr a"
  shows "sliceable a"
  using assms
  by (auto simp: shm_as_ndarray_obj np_frombuffer_def sliceable_def split: sum.splits)

lemma shm_to_nd_dict_loop_sliceable:
  assumes "shm_to_nd_dict_loop items NoShape ord acc = Inr d"
    and "\<forall>v\<in>snd ` set acc. sliceable v"
  shows "\<forall>v\<in>snd ` set d. sliceable v"
  using assms
proof (induction items arbitrary: acc)
  case Nil
  then show ?case by simp
next
  case (Cons kv items)
  obtain k b where kv: "kv = (k, b)" by (cases kv)
  with Cons.prems(1) obtain a where a: "shm_as_ndarray b None ord = Inr a"
    and rest: "shm_to_nd_dict_loop items NoShape ord (dict_setitem acc k a) = Inr d"
    by (auto split: sum.splits)
  have "\<forall>v\<in>snd ` set (dict_setitem acc k a). sliceable v"
    using set_dict_setitem [of acc k a] Cons.prems(2) shm_as_ndarray_flat_sliceable [OF a]
    by fastforce
  from Cons.IH [OF rest this] show ?case .
qed

lemma dict_rebuild_loop_None:
  assumes "dict_rebuild_loop bs acc = (None, nd)"
    and "\<forall>d\<in>set acc. \<forall>v\<in>snd ` set d. sliceable v"
  shows "length nd = length acc + length bs \<and> (\<forall>d\<in>set nd. \<forall>v\<in>snd ` set d. sliceable v)"
  using assms
proof (induction bs arbitrary: acc)
  case Nil
  then show ?case by simp
next
  case (Cons b bs)
  from Cons.prems(1) obtain d where d: "shm_to_nd_dict b NoShape C_order = Inr d"
    and rest: "dict_rebuild_loop bs (acc @ [d]) = (None, nd)"
    by (auto split: sum.splits)
  from d have "\<forall>v\<in>snd ` set d. sliceable v"
    using shm_to_nd_dict_loop_sliceable [of b C_order "[]" d]
    by (simp add: shm_to_nd_dict_def)
  with Cons.prems(2) have "\<forall>d\<in>set (acc @ [d]). \<forall>v\<in>snd ` set d. sliceable v"
    by auto
  from Cons.IH [OF rest this] show ?case by simp
qed

lemma BufferedDictManager_init_build:
  assumes "BufferedDictManager_init buffers q True = Inr m"
  shows "queue m = q \<and>
         (\<exists>nd. buffers_nd m = Some nd \<and> length nd = length buffers \<and>
               (\<forall>d\<in>set nd. \<forall>v\<in>snd ` set d. sliceable v))"
proof -
  let ?self = "\<lparr>queue = q, buffers_shm = buffers, buffers_nd = None\<rparr>"
  from assms obtain u where "BufferedDictManager_rebuild_buffers ?self = (Inr u, m)"
    by (auto simp: BufferedDictManager_init_def Let_def split: prod.splits sum.splits)
  then obtain nd where "dict_rebuild_loop buffers [] = (None, nd)"
    and "m = ?self\<lparr>buffers_nd := Some nd\<rparr>"
    by (auto simp: BufferedDictManager_rebuild_buffers_def split: prod.splits option.splits)
  with dict_rebuild_loop_None [of buffers "[]" nd] show ?thesis
    by auto
qed

lemma create_dict_pool_built:
  assumes "create_dict_pool recordables count buf_len dtype heap = Inr (p, heap')"
  shows "pool_built (nat count) p \<and> pool_queue p = py_range count"
proof -
  from assms obtain buffers q m where
    cb: "create_dict_buffers recordables count buf_len dtype heap = Inr (buffers, q, heap')"
    and init: "BufferedDictManager_init buffers q True = Inr m" and p: "p = DictPool m"
    by (auto simp: create_dict_pool_def split: sum.splits)
  from cb have "q = py_range count" "length buffers = nat count"
    by (auto simp: create_dict_buffers_def py_range_def dest: create_dict_buffers_loop_Inr)
  with BufferedDictManager_init_build [OF init] p show ?thesis by auto
qed

text \<open>
  Claim C1. Take a pool of \<open>N\<close> slots built by \<^verbatim>\<open>create_buffers\<close> or
  \<^verbatim>\<open>create_dict_buffers\<close> (with its views built) and any sequence of \<^verbatim>\<open>get_buffer\<close> and
  \<^verbatim>\<open>reclaim\<close> steps of any number of consumers in which \<^verbatim>\<open>reclaim\<close> is only called by a
  consumer holding the id. Then the queue has no duplicates, its ids lie in \<open>[0, N)\<close>,
  and every id of \<open>[0, N)\<close> is either in the queue and held by nobody or not in the queue
  and held exactly once.
\<close>

theorem free_list_invariant_holds:
  assumes "create_pool count shape dtype heap0 = Inr (p, heap1) \<or>
           create_dict_pool recordables count buf_len dtype heap0 = Inr (p, heap1)"
    and "run heap \<lparr>the_pool = p, checked_out = []\<rparr> events = Some s"
  shows "free_list_invariant (nat count) s"
proof -
  from assms(1) have built: "pool_built (nat count) p" and q: "pool_queue p = py_range count"
    using create_pool_built create_dict_pool_built by blast+
  have "distinct (py_range count)"
    by (simp add: py_range_def distinct_map inj_on_def)
  with built q have "protocol_invariant (nat count) \<lparr>the_pool = p, checked_out = []\<rparr>"
    by (simp add: protocol_invariant_def py_range_def)
  from run_invariant [OF this assms(2)] show ?thesis
    by (rule protocol_invariant_free_list)
qed

theorem free_list_invariant_holds_witness:
  "\<exists>p h s.
     create_dict_pool [''a'', ''b''] 2 3 float64 ([] :: real heap) = Inr (p, h) \<and>
     run h \<lparr>the_pool = p, checked_out = []\<rparr>
       [Get 7 (Some 2) None, Get 8 None (Some 1), Get 7 None (Some 1), Reclaim 7 0,
        Get 8 None None, Reclaim 8 1] = Some s \<and>
     free_list_invariant (nat 2) s"
proof -
  let ?views = "[[(''a'', \<lparr>nd_base = 0, nd_dtype = float64, nd_offset = 0, nd_shape = [3], nd_strides = [1]\<rparr>),
                  (''b'', \<lparr>nd_base = 1, nd_dtype = float64, nd_offset = 0, nd_shape = [3], nd_strides = [1]\<rparr>)],
                 [(''a'', \<lparr>nd_base = 2, nd_dtype = float64, nd_offset = 0, nd_shape = [3], nd_strides = [1]\<rparr>),
                  (''b'', \<lparr>nd_base = 3, nd_dtype = float64, nd_offset = 0, nd_shape = [3], nd_strides = [1]\<rparr>)]]"
  let ?bufs = "[[(''a'', Raw \<lparr>type_attr = c_double, addr = 0, nelem = 3\<rparr>),
                 (''b'', Raw \<lparr>type_attr = c_double, addr = 1, nelem = 3\<rparr>)],
                [(''a'', Raw \<lparr>type_attr = c_double, addr = 2, nelem = 3\<rparr>),
                 (''b'', Raw \<lparr>type_attr = c_double, addr = 3, nelem = 3\<rparr>)]]"
  let ?h = "[[0, 0, 0], [0, 0, 0], [0, 0, 0], [0, 0, 0]] :: real heap"
  let ?p = "DictPool \<lparr>queue = [0, 1], buffers_shm = ?bufs, buffers_nd = Some ?views\<rparr>"
  let ?s = "\<lparr>the_pool = DictPool \<lparr>queue = [1], buffers_shm = ?bufs, buffers_nd = Some ?views\<rparr>,
             checked_out = [(8, 0)]\<rparr>"
  have made: "create_dict_pool [''a'', ''b''] 2 3 float64 ([] :: real heap) = Inr (?p, ?h)"
    by code_simp
  have ran: "run ?h \<lparr>the_pool = ?p, checked_out = []\<rparr>
       [Get 7 (Some 2) None, Get 8 None (Some 1), Get 7 None (Some 1), Reclaim 7 0,
        Get 8 None None, Reclaim 8 1] = Some ?s"
    by code_simp
  from free_list_invariant_holds [OF disjI2 [OF made] ran] made ran
  show ?thesis by blast
qed

subsection \<open>Records of named buffers\<close>

lemma dict_setitem_fresh:
  "k \<notin> fst ` set d \<Longrightarrow> dict_setitem d k v = d @ [(k, v)]"
  by (induction d) auto

lemma map_fst_dict_setitem:
  "map fst (dict_setitem d k v) = (if k \<in> fst ` set d then map fst d else map fst d @ [k])"
  by (induction d) (fastforce simp: image_iff)+

lemma distinct_dict_setitem:
  "distinct (map fst d) \<Longrightarrow> distinct (map fst (dict_setitem d k v))"
  by (simp add: map_fst_dict_setitem)

lemma shm_as_ndarray_flat:
  assumes "shm_as_ndarray b None ord = Inr a"
  shows "flat_view_of b a"
  using assms
  by (auto simp: shm_as_ndarray_obj np_frombuffer_def flat_view_of_def split: sum.splits)

lemma shm_to_nd_dict_loop_flat:
  assumes "shm_to_nd_dict_loop items NoShape ord acc = Inr d"
    and "distinct (map fst acc)"
    and "\<forall>(k, v)\<in>set acc. \<exists>b. (k, b) \<in> B \<and> flat_view_of b v"
    and "set items \<subseteq> B"
  shows "distinct (map fst d) \<and> (\<forall>(k, v)\<in>set d. \<exists>b. (k, b) \<in> B \<and> flat_view_of b v)"
  using assms
proof (induction items arbitrary: acc)
  case Nil
  then show ?case by simp
next
  case (Cons kb items)
  obtain k b where kb: "kb = (k, b)" by (cases kb)
  with Cons.prems(1) obtain a where a: "shm_as_ndarray b None ord = Inr a"
    and rest: "shm_to_nd_dict_loop items NoShape ord (dict_setitem acc k a) = Inr d"
    by (auto split: sum.splits)
  have 1: "distinct (map fst (dict_setitem acc k a))"
    by (rule distinct_dict_setitem [OF Cons.prems(2)])
  have "(k, b) \<in> B" using Cons.prems(4) kb by simp
  with shm_as_ndarray_flat [OF a] Cons.prems(3) set_dict_setitem [of acc k a]
  have 2: "\<forall>(k, v)\<in>set (dict_setitem acc k a). \<exists>b. (k, b) \<in> B \<and> flat_view_of b v"
    by fastforce
  have 3: "set items \<subseteq> B" using Cons.prems(4) by simp
  from Cons.IH [OF rest 1 2 3] show ?case .
qed

lemma dict_rebuild_loop_views:
  assumes "dict_rebuild_loop bs acc = (None, nd)"
  shows "\<exists>ds. nd = acc @ ds \<and>
              list_all2 (\<lambda>b d. shm_to_nd_dict b NoShape C_order = Inr d) bs ds"
  using assms
proof (induction bs arbitrary: acc)
  case Nil
  then show ?case by simp
next
  case (Cons b bs)
  from Cons.prems obtain d where d: "shm_to_nd_dict b NoShape C_order = Inr d"
    and rest: "dict_rebuild_loop bs (acc @ [d]) = (None, nd)"
    by (auto split: sum.splits)
  from Cons.IH [OF rest] obtain ds where "nd = (acc @ [d]) @ ds"
    and "list_all2 (\<lambda>b d. shm_to_nd_dict b NoShape C_order = Inr d) bs ds"
    by blast
  with d show ?case
    by (intro exI [of _ "d # ds"]) simp
qed

lemma index_view_truncate:
  assumes "nd_shape v = [n]" and "nd_strides v = [st]"
  shows "index_view v [Slice (Some 0) (Some len) None] =
           Inr (v\<lparr>nd_shape := [slice_length 0 (if len < 0 then max (len + int n) 0 else min len (int n)) 1]\<rparr>)"
  using assms
  by (cases v) (simp add: index_view_def slice_indices_def Let_def)

lemma truncate_loop_flat:
  assumes "distinct (map fst (acc @ items))"
    and "\<forall>v\<in>snd ` set items. \<exists>n st. nd_shape v = [n] \<and> nd_strides v = [st]"
  shows "truncate_loop items len acc =
           Inr (acc @ map (\<lambda>(k, v). (k, v\<lparr>nd_shape := [slice_length 0
                  (if len < 0 then max (len + int (hd (nd_shape v))) 0
                   else min len (int (hd (nd_shape v)))) 1]\<rparr>)) items)"
  using assms
proof (induction items arbitrary: acc)
  case Nil
  then show ?case by simp
next
  case (Cons kv items)
  obtain k v where kv: "kv = (k, v)" by (cases kv)
  with Cons.prems(2) obtain n st where v: "nd_shape v = [n]" "nd_strides v = [st]"
    by auto
  let ?a = "v\<lparr>nd_shape := [slice_length 0
                  (if len < 0 then max (len + int (hd (nd_shape v))) 0
                   else min len (int (hd (nd_shape v)))) 1]\<rparr>"
  have a: "index_view v [Slice (Some 0) (Some len) None] = Inr ?a"
    using index_view_truncate [OF v, of len] by (simp add: v)
  from Cons.prems(1) kv have fresh: "k \<notin> fst ` set acc"
    by auto
  have d: "distinct (map fst ((acc @ [(k, ?a)]) @ items))"
    using Cons.prems(1) kv by auto
  have f: "\<forall>v\<in>snd ` set items. \<exists>n st. nd_shape v = [n] \<and> nd_strides v = [st]"
    using Cons.prems(2) by simp
  have "truncate_loop (kv # items) len acc = truncate_loop items len (acc @ [(k, ?a)])"
    by (simp add: kv a dict_setitem_fresh [OF fresh])
  also note Cons.IH [OF d f]
  finally show ?case by (simp add: kv)
qed

lemma map_of_map_values:
  "map_of (map (\<lambda>(k, v). (k, f v)) xs) k = map_option f (map_of xs k)"
  by (induction xs) auto

lemma tolist_truncated:
  assumes "n \<le> hd (nd_shape v)"
  shows "tolist heap (v\<lparr>nd_shape := [n]\<rparr>) = take n (tolist heap v)"
  using assms by (simp add: tolist_def take_map)

lemma BufferedDictManager_rebuild_buffers_Inr:
  assumes "BufferedDictManager_rebuild_buffers m0 = (Inr u, m)"
  shows "\<exists>nd. buffers_nd m = Some nd \<and> buffers_shm m = buffers_shm m0 \<and> queue m = queue m0 \<and>
              list_all2 (\<lambda>b d. shm_to_nd_dict b NoShape C_order = Inr d) (buffers_shm m0) nd"
proof -
  from assms obtain nd where "dict_rebuild_loop (buffers_shm m0) [] = (None, nd)"
    and "m = m0\<lparr>buffers_nd := Some nd\<rparr>"
    by (auto simp: BufferedDictManager_rebuild_buffers_def split: prod.splits option.splits)
  with dict_rebuild_loop_views [of "buffers_shm m0" "[]" nd] show ?thesis
    by auto
qed

text \<open>
  Claim C5. Take a \<^verbatim>\<open>BufferedDictManager\<close> whose views were built by
  \<^verbatim>\<open>rebuild_buffers\<close> and whose free list hands out the valid slot \<open>i\<close> next. Without a
  length, \<^verbatim>\<open>get_buffer\<close> returns the slot's full-capacity views: for every field the flat
  view of the field's whole buffer. With a length \<open>len \<ge> 0\<close> it returns a view for
  every field, and for every field whose allocated length is at least \<open>len\<close> that view
  has leading length \<open>len\<close>, lies over the same storage at the same position, and its
  contents are the first \<open>len\<close> elements of the full-capacity view.
\<close>

theorem length_truncated_projection:
  assumes "BufferedDictManager_rebuild_buffers m0 = (Inr (), m)"
    and "queue m = i # q" and "0 \<le> i" and "i < int (length (buffers_shm m))"
  shows "\<exists>full.
           shm_to_nd_dict (buffers_shm m ! nat i) NoShape C_order = Inr full \<and>
           (\<forall>(k, v)\<in>set full. \<exists>b. (k, b) \<in> set (buffers_shm m ! nat i) \<and> flat_view_of b v) \<and>
           BufferedDictManager_get_buffer m None timeout = (Returns (i, full), m\<lparr>queue := q\<rparr>) \<and>
           (0 \<le> len \<longrightarrow>
              (\<exists>r. BufferedDictManager_get_buffer m (Some len) timeout =
                      (Returns (i, r), m\<lparr>queue := q\<rparr>) \<and>
                   map fst r = map fst full \<and>
                   (\<forall>k v. map_of full k = Some v \<and> len \<le> int (hd (nd_shape v)) \<longrightarrow>
                      (\<exists>v'. map_of r k = Some v' \<and> nd_shape v' = [nat len] \<and>
                            nd_base v' = nd_base v \<and> nd_offset v' = nd_offset v \<and>
                            nd_strides v' = nd_strides v \<and>
                            tolist heap v' = take (nat len) (tolist heap v)))))"
proof -
  from BufferedDictManager_rebuild_buffers_Inr [OF assms(1)] obtain nd where
    nd: "buffers_nd m = Some nd" and bs: "buffers_shm m = buffers_shm m0"
    and all: "list_all2 (\<lambda>b d. shm_to_nd_dict b NoShape C_order = Inr d) (buffers_shm m) nd"
    by auto
  from all have len_nd: "length nd = length (buffers_shm m)"
    by (simp add: list_all2_lengthD)
  let ?full = "nd ! nat i"
  let ?b = "buffers_shm m ! nat i"
  from assms(3,4) have i: "nat i < length (buffers_shm m)" by simp
  have full: "shm_to_nd_dict ?b NoShape C_order = Inr ?full"
    using list_all2_nthD [OF all i] by simp
  from shm_to_nd_dict_loop_flat [of ?b C_order "[]" ?full "set ?b"] full
  have dist: "distinct (map fst ?full)"
    and flat: "\<forall>(k, v)\<in>set ?full. \<exists>b. (k, b) \<in> set ?b \<and> flat_view_of b v"
    by (simp_all add: shm_to_nd_dict_def)
  from assms(3,4) len_nd have item: "list_getitem nd i = Inr ?full"
    by (simp add: list_getitem_nonneg)
  have none: "BufferedDictManager_get_buffer m None timeout = (Returns (i, ?full), m\<lparr>queue := q\<rparr>)"
    by (simp add: BufferedDictManager_get_buffer_def BufferedDictManager_map_buffer_def
        assms(2) nd item)
  let ?tr = "\<lambda>v. v\<lparr>nd_shape := [slice_length 0
                  (if len < 0 then max (len + int (hd (nd_shape v))) 0
                   else min len (int (hd (nd_shape v)))) 1]\<rparr>"
  let ?r = "map (\<lambda>(k, v). (k, ?tr v)) ?full"
  have shapes: "\<forall>v\<in>snd ` set ?full. \<exists>n st. nd_shape v = [n] \<and> nd_strides v = [st]"
    using flat by (fastforce simp: flat_view_of_def)
  have trunc: "truncate_loop ?full len [] = Inr ?r"
    using truncate_loop_flat [of "[]" ?full len] dist shapes by simp
  have some: "BufferedDictManager_get_buffer m (Some len) timeout = (Returns (i, ?r), m\<lparr>queue := q\<rparr>)"
    by (simp add: BufferedDictManager_get_buffer_def BufferedDictManager_map_buffer_def
        assms(2) nd item trunc)
  have keys: "map fst ?r = map fst ?full"
    by (simp add: comp_def case_prod_unfold)
  have fields: "\<exists>v'. map_of ?r k = Some v' \<and> nd_shape v' = [nat len] \<and>
                  nd_base v' = nd_base v \<and> nd_offset v' = nd_offset v \<and>
                  nd_strides v' = nd_strides v \<and>
                  tolist heap v' = take (nat len) (tolist heap v)"
    if "0 \<le> len" and "map_of ?full k = Some v" and "len \<le> int (hd (nd_shape v))" for k v
  proof -
    from that have sl: "slice_length 0
                  (if len < 0 then max (len + int (hd (nd_shape v))) 0
                   else min len (int (hd (nd_shape v)))) 1 = nat len"
      by (simp add: slice_length_def)
    have "map_of ?r k = Some (?tr v)"
      using that(2) by (simp add: map_of_map_values)
    moreover have "tolist heap (v\<lparr>nd_shape := [nat len]\<rparr>) = take (nat len) (tolist heap v)"
      using that by (intro tolist_truncated) simp
    ultimately show ?thesis
      by (simp add: sl)
  qed
  from full flat none some keys fields show ?thesis
    by (intro exI [of _ ?full] conjI impI exI [of _ ?r]) blast+
qed

theorem length_truncated_projection_witness:
  "\<exists>m full r va va'.
     BufferedDictManager_rebuild_buffers
       \<lparr>queue = [1, 0],
          buffers_shm = [[(''a'', Raw \<lparr>type_attr = c_double, addr = 0, nelem = 3\<rparr>),
                          (''b'', Raw \<lparr>type_attr = c_double, addr = 1, nelem = 3\<rparr>)],
                         [(''a'', Raw \<lparr>type_attr = c_double, addr = 2, nelem = 3\<rparr>),
                          (''b'', Raw \<lparr>type_attr = c_double, addr = 3, nelem = 3\<rparr>)]],
          buffers_nd = None\<rparr> = (Inr (), m) \<and>
     queue m = [1, 0] \<and>
     BufferedDictManager_get_buffer m None None = (Returns (1, full), m\<lparr>queue := [0]\<rparr>) \<and>
     map_of full ''a'' = Some va \<and> nd_shape va = [3] \<and>
     BufferedDictManager_get_buffer m (Some 2) None = (Returns (1, r), m\<lparr>queue := [0]\<rparr>) \<and>
     map_of r ''a'' = Some va' \<and> nd_shape va' = [2] \<and> nd_base va' = nd_base va \<and>
     tolist ([[1, 2, 3], [4, 5, 6], [7, 8, 9], [10, 11, 12]] :: int heap) va' = [7, 8]"
proof -
  let ?bufs = "[[(''a'', Raw \<lparr>type_attr = c_double, addr = 0, nelem = 3\<rparr>),
                 (''b'', Raw \<lparr>type_attr = c_double, addr = 1, nelem = 3\<rparr>)],
                [(''a'', Raw \<lparr>type_attr = c_double, addr = 2, nelem = 3\<rparr>),
                 (''b'', Raw \<lparr>type_attr = c_double, addr = 3, nelem = 3\<rparr>)]]"
  let ?va = "\<lparr>nd_base = 2, nd_dtype = float64, nd_offset = 0, nd_shape = [3], nd_strides = [1]\<rparr>"
  let ?full = "[(''a'', ?va),
                (''b'', \<lparr>nd_base = 3, nd_dtype = float64, nd_offset = 0, nd_shape = [3], nd_strides = [1]\<rparr>)]"
  let ?views = "[[(''a'', \<lparr>nd_base = 0, nd_dtype = float64, nd_offset = 0, nd_shape = [3], nd_strides = [1]\<rparr>),
                  (''b'', \<lparr>nd_base = 1, nd_dtype = float64, nd_offset = 0, nd_shape = [3], nd_strides = [1]\<rparr>)],
                 ?full]"
  let ?start = "\<lparr>queue = [1, 0], buffers_shm = ?bufs, buffers_nd = None\<rparr>"
  let ?m = "\<lparr>queue = [1, 0], buffers_shm = ?bufs, buffers_nd = Some ?views\<rparr>"
  let ?heap = "[[1, 2, 3], [4, 5, 6], [7, 8, 9], [10, 11, 12]] :: int heap"
  have reb: "BufferedDictManager_rebuild_buffers ?start = (Inr (), ?m)"
    by code_simp
  have q: "queue ?m = 1 # [0]" and lo: "(0 :: int) \<le> 1"
    and hi: "1 < int (length (buffers_shm ?m))"
    by simp_all
  have built: "shm_to_nd_dict (buffers_shm ?m ! nat 1) NoShape C_order = Inr ?full"
    by code_simp
  have elems: "tolist ?heap ?va = [7, 8, 9]"
    by code_simp
  from length_truncated_projection [OF reb q lo hi, of None 2 ?heap] built
  obtain r where none: "BufferedDictManager_get_buffer ?m None None = (Returns (1, ?full), ?m\<lparr>queue := [0]\<rparr>)"
    and some: "BufferedDictManager_get_buffer ?m (Some 2) None = (Returns (1, r), ?m\<lparr>queue := [0]\<rparr>)"
    and fields: "\<forall>k v. map_of ?full k = Some v \<and> 2 \<le> int (hd (nd_shape v)) \<longrightarrow>
                   (\<exists>v'. map_of r k = Some v' \<and> nd_shape v' = [nat 2] \<and>
                         nd_base v' = nd_base v \<and> nd_offset v' = nd_offset v \<and>
                         nd_strides v' = nd_strides v \<and>
                         tolist ?heap v' = take (nat 2) (tolist ?heap v))"
    by auto
  have "map_of ?full ''a'' = Some ?va \<and> 2 \<le> int (hd (nd_shape ?va))"
    by simp
  with fields obtain v' where v': "map_of r ''a'' = Some v'" "nd_shape v' = [nat 2]"
    "nd_base v' = nd_base ?va" "tolist ?heap v' = take (nat 2) (tolist ?heap ?va)"
    by blast
  from v'(4) have t: "tolist ?heap v' = [7, 8]"
    by (simp add: elems)
  have s2: "nd_shape v' = [2]"
    using v'(2) by simp
  have va: "map_of ?full ''a'' = Some ?va" "nd_shape ?va = [3]"
    by simp_all
  have qm: "queue ?m = [1, 0]"
    by simp
  show ?thesis
    apply (rule exI [of _ ?m])
    apply (rule exI [of _ ?full])
    apply (rule exI [of _ r])
    apply (rule exI [of _ ?va])
    apply (rule exI [of _ v'])
    apply (intro conjI)
    apply (rule reb)
    apply (rule qm)
    apply (rule none)
    apply (rule va(1))
    apply (rule va(2))
    apply (rule some)
    apply (rule v'(1))
    apply (rule s2)
    apply (rule v'(3))
    apply (rule t)
    done
qed

subsection \<open>Fields with their own shapes\<close>











subsection \<open>Index projection\<close>

text \<open>
  What \<^verbatim>\<open>BufferManager.map_buffer\<close> does on a valid slot: without indices it returns
  the slot's view; with indices that Python counts as true it returns numpy's
  \<^verbatim>\<open>view[indices]\<close>; with indices that Python counts as false (the integer 0, the
  empty tuple) it takes the branch for absent indices and returns the whole view.
\<close>

lemma BufferManager_map_buffer_indices:
  assumes "buffers_np m = Some np" and "0 \<le> i" and "i < int (length np)"
  shows "BufferManager_map_buffer heap m i None = Inr (Array (np ! nat i))"
    and "\<not> py_not (Some ind) \<Longrightarrow>
           BufferManager_map_buffer heap m i (Some ind) = np_getitem heap (np ! nat i) ind"
    and "py_not (Some ind) \<Longrightarrow>
           BufferManager_map_buffer heap m i (Some ind) = Inr (Array (np ! nat i))"
  using assms by (simp_all add: BufferManager_map_buffer_def list_getitem_nonneg)

text \<open>
  Claim C6 at the index 0. A pool of one buffer of shape \<open>(2, 3)\<close>: asked for the index
  0 of slot 0, \<^verbatim>\<open>map_buffer\<close> returns the whole \<open>(2, 3)\<close> view, where the index
  projection \<^verbatim>\<open>view[0]\<close> is the first row, of shape \<open>(3,)\<close>. Asked for the index 1 it
  returns the second row, as the claim says.
\<close>

theorem map_buffer_index_zero:
  "create_managed_buffers 1 [2, 3] float64 True ([] :: real heap) =
     Inr (\<lparr>queue = [0],
            buffers_shm = [Raw \<lparr>type_attr = c_double, addr = 0, nelem = 6\<rparr>],
            buf_shape = Some [2, 3],
            buffers_np = Some [\<lparr>nd_base = 0, nd_dtype = float64, nd_offset = 0,
                                 nd_shape = [2, 3], nd_strides = [3, 1]\<rparr>]\<rparr>,
          [[0, 0, 0, 0, 0, 0]]) \<and>
   BufferManager_map_buffer ([[0, 0, 0, 0, 0, 0]] :: real heap)
     \<lparr>queue = [0],
        buffers_shm = [Raw \<lparr>type_attr = c_double, addr = 0, nelem = 6\<rparr>],
        buf_shape = Some [2, 3],
        buffers_np = Some [\<lparr>nd_base = 0, nd_dtype = float64, nd_offset = 0,
                             nd_shape = [2, 3], nd_strides = [3, 1]\<rparr>]\<rparr>
     0 (Some (One (Index 0))) =
     Inr (Array \<lparr>nd_base = 0, nd_dtype = float64, nd_offset = 0,
                  nd_shape = [2, 3], nd_strides = [3, 1]\<rparr>) \<and>
   np_getitem ([[0, 0, 0, 0, 0, 0]] :: real heap)
     \<lparr>nd_base = 0, nd_dtype = float64, nd_offset = 0, nd_shape = [2, 3], nd_strides = [3, 1]\<rparr>
     (One (Index 0)) =
     Inr (Array \<lparr>nd_base = 0, nd_dtype = float64, nd_offset = 0,
                  nd_shape = [3], nd_strides = [1]\<rparr>) \<and>
   BufferManager_map_buffer ([[0, 0, 0, 0, 0, 0]] :: real heap)
     \<lparr>queue = [0],
        buffers_shm = [Raw \<lparr>type_attr = c_double, addr = 0, nelem = 6\<rparr>],
        buf_shape = Some [2, 3],
        buffers_np = Some [\<lparr>nd_base = 0, nd_dtype = float64, nd_offset = 0,
                             nd_shape = [2, 3], nd_strides = [3, 1]\<rparr>]\<rparr>
     0 (Some (One (Index 1))) =
     Inr (Array \<lparr>nd_base = 0, nd_dtype = float64, nd_offset = 3,
                  nd_shape = [3], nd_strides = [1]\<rparr>)"
  by code_simp

end
